theory Spec2Isabelle
  imports Main "HOL-Library.Sublist"
begin

section \<open>Values and dictionaries\<close>

text \<open>
  The values the judge passes around are the ones \<^verbatim>\<open>json.dump\<close> can print. A Python
  \<^verbatim>\<open>dict\<close> with string keys is an association list in insertion order. Assigning to a key
  that is present replaces its value in place (the keys of a \<^verbatim>\<open>dict\<close> are distinct, so
  that is one entry); assigning to a new key appends it.
\<close>

datatype json =
    JNull
  | JBool bool
  | JInt int
  | JStr string
  | JList "json list"
  | JObj "(string \<times> json) list"

type_synonym pydict = "(string \<times> json) list"

definition dict_set :: "string \<Rightarrow> json \<Rightarrow> pydict \<Rightarrow> pydict" where
  "dict_set k v d =
     (if k \<in> set (map fst d)
      then map (\<lambda>(k', v'). (k', if k' = k then v else v')) d
      else d @ [(k, v)])"

definition dict_get :: "pydict \<Rightarrow> string \<Rightarrow> json option" where
  "dict_get d k = map_of d k"

text \<open>\<^verbatim>\<open>{**d, **e}\<close>: the entries of \<open>e\<close> are assigned one by one on top of \<open>d\<close>.\<close>

definition dict_update :: "pydict \<Rightarrow> pydict \<Rightarrow> pydict" where
  "dict_update d e = fold (\<lambda>(k, v). dict_set k v) e d"

section \<open>Enumerations\<close>

datatype ErrorType =
    INTERNAL_ERROR
  | COMPILATION_ERROR
  | MEMORY_LIMIT_EXCEEDED
  | TIME_LIMIT_EXCEEDED
  | OUTPUT_LIMIT_EXCEEDED
  | RUNTIME_ERROR
  | WRONG
  | WRONG_ANSWER
  | CORRECT
  | CORRECT_ANSWER

text \<open>\<^verbatim>\<open>ErrorType\<close> is a \<^verbatim>\<open>str\<close> enumeration: a member compares equal to its string.\<close>

fun ErrorType_value :: "ErrorType \<Rightarrow> string" where
  "ErrorType_value INTERNAL_ERROR = ''internal error''"
| "ErrorType_value COMPILATION_ERROR = ''compilation error''"
| "ErrorType_value MEMORY_LIMIT_EXCEEDED = ''memory limit exceeded''"
| "ErrorType_value TIME_LIMIT_EXCEEDED = ''time limit exceeded''"
| "ErrorType_value OUTPUT_LIMIT_EXCEEDED = ''output limit exceeded''"
| "ErrorType_value RUNTIME_ERROR = ''runtime error''"
| "ErrorType_value WRONG = ''wrong''"
| "ErrorType_value WRONG_ANSWER = ''wrong answer''"
| "ErrorType_value CORRECT = ''correct''"
| "ErrorType_value CORRECT_ANSWER = ''correct answer''"

section \<open>The classes of \<^verbatim>\<open>dodona_command.py\<close>\<close>

datatype cls =
    DodonaCommand
  | DodonaCommandWithAccepted
  | DodonaCommandWithStatus
  | Judgement
  | Tab
  | Context
  | TestCase
  | Test
  | Message
  | Annotation

text \<open>The base class named in each \<^verbatim>\<open>class\<close> statement (\<^verbatim>\<open>ABC\<close> and \<^verbatim>\<open>object\<close> left out).\<close>

fun superclass :: "cls \<Rightarrow> cls option" where
  "superclass DodonaCommand = None"
| "superclass DodonaCommandWithAccepted = Some DodonaCommand"
| "superclass DodonaCommandWithStatus = Some DodonaCommandWithAccepted"
| "superclass Judgement = Some DodonaCommandWithStatus"
| "superclass Tab = Some DodonaCommand"
| "superclass Context = Some DodonaCommandWithAccepted"
| "superclass TestCase = Some DodonaCommandWithAccepted"
| "superclass Test = Some DodonaCommandWithStatus"
| "superclass Message = Some DodonaCommand"
| "superclass Annotation = Some DodonaCommand"

text \<open>The method resolution order: the class, then its base, and so on.\<close>

fun mro :: "cls \<Rightarrow> cls list" where
  "mro DodonaCommand = [DodonaCommand]"
| "mro DodonaCommandWithAccepted = [DodonaCommandWithAccepted, DodonaCommand]"
| "mro DodonaCommandWithStatus =
     [DodonaCommandWithStatus, DodonaCommandWithAccepted, DodonaCommand]"
| "mro Judgement =
     [Judgement, DodonaCommandWithStatus, DodonaCommandWithAccepted, DodonaCommand]"
| "mro Tab = [Tab, DodonaCommand]"
| "mro Context = [Context, DodonaCommandWithAccepted, DodonaCommand]"
| "mro TestCase = [TestCase, DodonaCommandWithAccepted, DodonaCommand]"
| "mro Test = [Test, DodonaCommandWithStatus, DodonaCommandWithAccepted, DodonaCommand]"
| "mro Message = [Message, DodonaCommand]"
| "mro Annotation = [Annotation, DodonaCommand]"

definition issubclass :: "cls \<Rightarrow> cls \<Rightarrow> bool" where
  "issubclass c d = (d \<in> set (mro c))"

fun class_name :: "cls \<Rightarrow> string" where
  "class_name DodonaCommand = ''DodonaCommand''"
| "class_name DodonaCommandWithAccepted = ''DodonaCommandWithAccepted''"
| "class_name DodonaCommandWithStatus = ''DodonaCommandWithStatus''"
| "class_name Judgement = ''Judgement''"
| "class_name Tab = ''Tab''"
| "class_name Context = ''Context''"
| "class_name TestCase = ''TestCase''"
| "class_name Test = ''Test''"
| "class_name Message = ''Message''"
| "class_name Annotation = ''Annotation''"

text \<open>\<^verbatim>\<open>str.lower\<close> on the ASCII letters, which is all a class name holds.\<close>

definition lower_char :: "char \<Rightarrow> char" where
  "lower_char c =
     (case map_of (zip ''ABCDEFGHIJKLMNOPQRSTUVWXYZ'' ''abcdefghijklmnopqrstuvwxyz'') c of
        None \<Rightarrow> c
      | Some l \<Rightarrow> l)"

definition lower :: "string \<Rightarrow> string" where
  "lower s = map lower_char s"

section \<open>Report blocks\<close>

text \<open>
  A block object: \<open>ident\<close> is the object's identity (the place in the program where it was
  constructed), \<open>klass\<close> its class, \<open>start_args\<close> and \<open>close_args\<close> the \<^verbatim>\<open>__dict__\<close> of
  the two \<^verbatim>\<open>SimpleNamespace\<close> objects.
\<close>

type_synonym path = "nat list"

record block =
  ident :: path
  klass :: cls
  start_args :: pydict
  close_args :: pydict

definition DodonaCommand_init :: "path \<Rightarrow> cls \<Rightarrow> pydict \<Rightarrow> block" where
  "DodonaCommand_init p c kwargs =
     \<lparr>ident = p, klass = c, start_args = kwargs, close_args = []\<rparr>"

text \<open>
  In the constructors with named parameters, \<open>kwargs\<close> is what is left of the call's
  keywords once Python has bound the named ones, so it does not hold their names.
\<close>

definition Tab_init :: "path \<Rightarrow> json \<Rightarrow> pydict \<Rightarrow> block" where
  "Tab_init p title kwargs =
     DodonaCommand_init p Tab (dict_update [(''title'', title)] kwargs)"

definition TestCase_init :: "path \<Rightarrow> json list \<Rightarrow> pydict \<Rightarrow> block" where
  "TestCase_init p args kwargs =
     (if length args = 1
      then DodonaCommand_init p TestCase [(''description'', args ! 0)]
      else DodonaCommand_init p TestCase [(''description'', JObj kwargs)])"

definition Test_init :: "path \<Rightarrow> json \<Rightarrow> json \<Rightarrow> pydict \<Rightarrow> block" where
  "Test_init p description expected kwargs =
     DodonaCommand_init p Test
       (dict_update [(''description'', description), (''expected'', expected)] kwargs)"

definition Message_init :: "path \<Rightarrow> json list \<Rightarrow> pydict \<Rightarrow> block" where
  "Message_init p args kwargs =
     (if length args = 1
      then DodonaCommand_init p Message [(''message'', args ! 0)]
      else DodonaCommand_init p Message [(''message'', JObj kwargs)])"

definition Annotation_init :: "path \<Rightarrow> json \<Rightarrow> json \<Rightarrow> pydict \<Rightarrow> block" where
  "Annotation_init p row text kwargs =
     DodonaCommand_init p Annotation
       (dict_update [(''row'', row), (''text'', text)] kwargs)"

definition name :: "block \<Rightarrow> string" where
  "name b = lower (class_name (klass b))"

text \<open>\<^verbatim>\<open>Message\<close> and \<^verbatim>\<open>Annotation\<close> override both methods; no class derives from them.\<close>

definition start_msg :: "block \<Rightarrow> pydict" where
  "start_msg b =
     (if klass b = Message
      then dict_update [(''command'', JStr ''append-message'')] (start_args b)
      else if klass b = Annotation
      then dict_update [(''command'', JStr ''annotate-code'')] (start_args b)
      else dict_update [(''command'', JStr (''start-'' @ name b))] (start_args b))"

definition close_msg :: "block \<Rightarrow> pydict option" where
  "close_msg b =
     (if klass b = Message \<or> klass b = Annotation
      then None
      else Some (dict_update [(''command'', JStr (''close-'' @ name b))] (close_args b)))"

section \<open>The output stream\<close>

text \<open>
  One record of the output stream: the dictionary printed (\<open>payload\<close>), the object
  whose method printed it and which of the three calls of \<^verbatim>\<open>__print_command\<close> did:
  the one in \<^verbatim>\<open>__enter__\<close>, the one in \<^verbatim>\<open>handle_dodona_exception\<close> or the one in
  \<^verbatim>\<open>__exit__\<close>. The text on \<^verbatim>\<open>stdout\<close> is the payloads in order.
\<close>

datatype call_site = At_enter | At_escalate | At_exit

record event =
  emitter :: path
  site :: call_site
  payload :: pydict

definition print_command :: "path \<Rightarrow> call_site \<Rightarrow> pydict option \<Rightarrow> event list" where
  "print_command p s result =
     (case result of
        None \<Rightarrow> []
      | Some d \<Rightarrow> [\<lparr>emitter = p, site = s, payload = d\<rparr>])"

definition dunder_enter :: "block \<Rightarrow> event list" where
  "dunder_enter b = print_command (ident b) At_enter (Some (start_msg b))"

section \<open>The failure signal\<close>

record DodonaException =
  status :: pydict
  recover_at :: cls
  escalate_status :: bool
  message :: "block option"

text \<open>
  \<open>p\<close> is the place of the \<^verbatim>\<open>raise\<close>, where the \<^verbatim>\<open>Message\<close> object is constructed.
\<close>

definition DodonaException_init ::
  "path \<Rightarrow> pydict \<Rightarrow> cls option \<Rightarrow> pydict \<Rightarrow> DodonaException" where
  "DodonaException_init p st recover kwargs =
     \<lparr>status = st,
      recover_at = (case recover of None \<Rightarrow> Judgement | Some c \<Rightarrow> c),
      escalate_status = (case recover of None \<Rightarrow> False | Some c \<Rightarrow> True),
      message = (if length kwargs > 0 then Some (Message_init p [] kwargs) else None)\<rparr>"

datatype exn = DodonaExc DodonaException | OtherExc string

text \<open>
  What a method call leaves behind: the records printed, the block and the signal as
  mutated, and either the name of the exception the call raised or its return value.
\<close>

type_synonym 'a effect = "event list \<times> block \<times> DodonaException \<times> (string + 'a)"

text \<open>
  \<^verbatim>\<open>with exception.message: pass\<close> enters the message (printing it) and leaves it with no
  exception; \<^verbatim>\<open>Message.close_msg\<close> is \<^verbatim>\<open>None\<close>, so leaving prints nothing.
\<close>

definition DodonaCommand_handle :: "block \<Rightarrow> DodonaException \<Rightarrow> bool effect" where
  "DodonaCommand_handle self exception =
     (let out1 = (case message exception of
                    None \<Rightarrow> []
                  | Some m \<Rightarrow> dunder_enter m @ print_command (ident m) At_exit (close_msg m));
          exception' = exception\<lparr>message := None\<rparr>
      in if issubclass (klass self) (recover_at exception)
         then (out1 @ (if escalate_status exception
                       then print_command (ident self) At_escalate
                              (Some [(''command'', JStr ''escalate-status''),
                                     (''status'', JObj (status exception))])
                       else []),
               self, exception', Inr True)
         else (out1, self, exception', Inr False))"

definition setattr_close :: "block \<Rightarrow> string \<Rightarrow> json \<Rightarrow> block" where
  "setattr_close b k v = b\<lparr>close_args := dict_set k v (close_args b)\<rparr>"

text \<open>
  \<^verbatim>\<open>exception.status["enum"]\<close> raises \<^verbatim>\<open>KeyError\<close> when the status has no such key, before
  anything is assigned or printed.
\<close>

definition WithAccepted_handle :: "block \<Rightarrow> DodonaException \<Rightarrow> bool effect" where
  "WithAccepted_handle self exception =
     (case dict_get (status exception) ''enum'' of
        None \<Rightarrow> ([], self, exception, Inl ''KeyError'')
      | Some e \<Rightarrow>
          (let accepted = (e = JStr (ErrorType_value CORRECT)
                           \<or> e = JStr (ErrorType_value CORRECT_ANSWER))
           in DodonaCommand_handle (setattr_close self ''accepted'' (JBool accepted)) exception))"

definition WithStatus_handle :: "block \<Rightarrow> DodonaException \<Rightarrow> bool effect" where
  "WithStatus_handle self exception =
     WithAccepted_handle (setattr_close self ''status'' (JObj (status exception))) exception"

text \<open>The method the call \<^verbatim>\<open>self.handle_dodona_exception\<close> resolves to.\<close>

definition handle_dodona_exception :: "block \<Rightarrow> DodonaException \<Rightarrow> bool effect" where
  "handle_dodona_exception self exception =
     (if issubclass (klass self) DodonaCommandWithStatus
      then WithStatus_handle self exception
      else if issubclass (klass self) DodonaCommandWithAccepted
      then WithAccepted_handle self exception
      else DodonaCommand_handle self exception)"

text \<open>
  \<^verbatim>\<open>__exit__\<close>: \<open>exc_val\<close> is \<open>None\<close> when the body ended without an exception. The result
  holds the exception as the handler left it.
\<close>

definition dunder_exit ::
  "block \<Rightarrow> exn option \<Rightarrow> event list \<times> block \<times> exn option \<times> (string + bool)" where
  "dunder_exit self exc_val =
     (case exc_val of
        Some (DodonaExc x) \<Rightarrow>
          (case handle_dodona_exception self x of
             (out, self', x', Inl err) \<Rightarrow> (out, self', Some (DodonaExc x'), Inl err)
           | (out, self', x', Inr handled) \<Rightarrow>
               (out @ print_command (ident self') At_exit (close_msg self'),
                self', Some (DodonaExc x'), Inr handled))
      | _ \<Rightarrow>
          (print_command (ident self) At_exit (close_msg self), self, exc_val, Inr False))"

section \<open>The \<^verbatim>\<open>with\<close> statement\<close>

datatype outcome = Normal | Raised exn

text \<open>
  How Python leaves a \<^verbatim>\<open>with\<close> block: \<^verbatim>\<open>__exit__\<close> is called with the exception of
  the body, if any. An exception raised by \<^verbatim>\<open>__exit__\<close> itself takes over; otherwise
  the body's exception goes on to the enclosing code unless \<^verbatim>\<open>__exit__\<close> returned true.
\<close>

definition with_exit :: "block \<Rightarrow> outcome \<Rightarrow> event list \<times> block \<times> outcome" where
  "with_exit self r =
     (case r of
        Normal \<Rightarrow>
          (case dunder_exit self None of
             (out, self', _, Inl err) \<Rightarrow> (out, self', Raised (OtherExc err))
           | (out, self', _, Inr _) \<Rightarrow> (out, self', Normal))
      | Raised e \<Rightarrow>
          (case dunder_exit self (Some e) of
             (out, self', _, Inl err) \<Rightarrow> (out, self', Raised (OtherExc err))
           | (out, self', e', Inr handled) \<Rightarrow>
               (out, self',
                if handled then Normal
                else Raised (case e' of None \<Rightarrow> e | Some e'' \<Rightarrow> e''))))"

text \<open>
  A signal leaving the blocks \<open>b # bs\<close> (innermost first) that are open where it is
  raised: each block is left in turn until one of them swallows the exception. The
  result holds the records printed, the blocks that were left, as they were left, and
  what goes on to the code around them.
\<close>

fun unwind :: "block list \<Rightarrow> exn \<Rightarrow> event list \<times> block list \<times> outcome" where
  "unwind [] e = ([], [], Raised e)"
| "unwind (b # bs) e =
     (case with_exit b (Raised e) of
        (out, b', Normal) \<Rightarrow> (out, [b'], Normal)
      | (out, b', Raised e') \<Rightarrow>
          (case unwind bs e' of (out', bs', r) \<Rightarrow> (out @ out', b' # bs', r)))"

section \<open>Judge programs\<close>

text \<open>A constructor call, after Python has bound its arguments.\<close>

datatype ctor =
    NewDodonaCommand pydict
  | NewDodonaCommandWithAccepted pydict
  | NewDodonaCommandWithStatus pydict
  | NewJudgement pydict
  | NewTab json pydict
  | NewContext pydict
  | NewTestCase "json list" pydict
  | NewTest json json pydict
  | NewMessage "json list" pydict
  | NewAnnotation json json pydict

fun construct :: "path \<Rightarrow> ctor \<Rightarrow> block" where
  "construct p (NewDodonaCommand kwargs) = DodonaCommand_init p DodonaCommand kwargs"
| "construct p (NewDodonaCommandWithAccepted kwargs) =
     DodonaCommand_init p DodonaCommandWithAccepted kwargs"
| "construct p (NewDodonaCommandWithStatus kwargs) =
     DodonaCommand_init p DodonaCommandWithStatus kwargs"
| "construct p (NewJudgement kwargs) = DodonaCommand_init p Judgement kwargs"
| "construct p (NewTab title kwargs) = Tab_init p title kwargs"
| "construct p (NewContext kwargs) = DodonaCommand_init p Context kwargs"
| "construct p (NewTestCase args kwargs) = TestCase_init p args kwargs"
| "construct p (NewTest description expected kwargs) = Test_init p description expected kwargs"
| "construct p (NewMessage args kwargs) = Message_init p args kwargs"
| "construct p (NewAnnotation row text kwargs) = Annotation_init p row text kwargs"

text \<open>
  The statements of a block body, as the judge script uses them:
  \<^item> \<open>With c body\<close> is \<^verbatim>\<open>with C(...) as h: body\<close>;
  \<^item> \<open>SetAttr k v\<close> is \<^verbatim>\<open>h.k = v\<close> on the handle of the innermost open block;
  \<^item> \<open>Raise st r kwargs\<close> is \<^verbatim>\<open>raise DodonaException(st, r, **kwargs)\<close>, with
    \<open>r = None\<close> when \<^verbatim>\<open>recover_at\<close> is left out;
  \<^item> \<open>RaiseOther n\<close> raises an exception that is not a \<^verbatim>\<open>DodonaException\<close>.
\<close>

datatype stmt =
    With ctor "stmt list"
  | SetAttr string json
  | Raise pydict "cls option" pydict
  | RaiseOther string

text \<open>
  \<open>exec_body p k ss ca\<close> runs the statements \<open>ss\<close>, the \<open>k\<close>-th and following of the
  body of the block at \<open>p\<close>, whose \<^verbatim>\<open>close_args\<close> are \<open>ca\<close>; \<open>exec_with p c body\<close> runs a
  whole \<^verbatim>\<open>with\<close> statement placed at \<open>p\<close>. Both return the records printed.
\<close>

fun exec_body :: "path \<Rightarrow> nat \<Rightarrow> stmt list \<Rightarrow> pydict \<Rightarrow> event list \<times> pydict \<times> outcome"
  and exec_with :: "path \<Rightarrow> ctor \<Rightarrow> stmt list \<Rightarrow> event list \<times> outcome" where
  "exec_body p k [] ca = ([], ca, Normal)"
| "exec_body p k (SetAttr a v # ss) ca = exec_body p (Suc k) ss (dict_set a v ca)"
| "exec_body p k (Raise st r kwargs # ss) ca =
     ([], ca, Raised (DodonaExc (DodonaException_init (p @ [k]) st r kwargs)))"
| "exec_body p k (RaiseOther n # ss) ca = ([], ca, Raised (OtherExc n))"
| "exec_body p k (With c body # ss) ca =
     (case exec_with (p @ [k]) c body of
        (out, Normal) \<Rightarrow>
          (case exec_body p (Suc k) ss ca of (out', ca', r) \<Rightarrow> (out @ out', ca', r))
      | (out, Raised e) \<Rightarrow> (out, ca, Raised e))"
| "exec_with p c body =
     (let self = construct p c
      in case exec_body p 0 body (close_args self) of
           (out, ca, r) \<Rightarrow>
             (case with_exit (self\<lparr>close_args := ca\<rparr>) r of
                (out', self', r') \<Rightarrow> (dunder_enter self @ out @ out', r')))"

section \<open>Names for the parts of a handler's effect\<close>

text \<open>
  The records printed for the note a signal carries, the record printed by the block
  that claims an escalating signal, the record printed when a block is left, and the
  block as the handler leaves it.
\<close>

definition note_events :: "DodonaException \<Rightarrow> event list" where
  "note_events x =
     (case message x of
        None \<Rightarrow> []
      | Some m \<Rightarrow> dunder_enter m @ print_command (ident m) At_exit (close_msg m))"

definition escalate_events :: "block \<Rightarrow> DodonaException \<Rightarrow> event list" where
  "escalate_events b x =
     (if issubclass (klass b) (recover_at x) \<and> escalate_status x
      then [\<lparr>emitter = ident b, site = At_escalate,
             payload = [(''command'', JStr ''escalate-status''),
                        (''status'', JObj (status x))]\<rparr>]
      else [])"

definition close_events :: "block \<Rightarrow> event list" where
  "close_events b = print_command (ident b) At_exit (close_msg b)"

definition after_handler :: "block \<Rightarrow> DodonaException \<Rightarrow> block" where
  "after_handler b x = fst (snd (handle_dodona_exception b x))"

section \<open>The blocks open at a statement\<close>

text \<open>
  A statement deep inside a program: \<open>plug fs s\<close> wraps \<open>s\<close> in the \<^verbatim>\<open>with\<close> statements
  \<open>fs\<close>, outermost first, each with the statements before and after the place of \<open>s\<close>.
  When \<open>plug fs s\<close> is the \<open>k\<close>-th statement of the body at \<open>q\<close>, \<open>hole q k fs\<close> is the
  place of \<open>s\<close>, and \<open>descend q k fs\<close> runs the program up to \<open>s\<close>: it gives the records
  printed so far and the blocks then open, innermost first, provided every statement
  before \<open>s\<close> ends without an exception.
\<close>

type_synonym frame = "ctor \<times> stmt list \<times> stmt list"

fun plug :: "frame list \<Rightarrow> stmt \<Rightarrow> stmt" where
  "plug [] s = s"
| "plug ((c, pre, post) # fs) s = With c (pre @ plug fs s # post)"

fun hole :: "path \<Rightarrow> nat \<Rightarrow> frame list \<Rightarrow> path" where
  "hole q k [] = q @ [k]"
| "hole q k ((c, pre, post) # fs) = hole (q @ [k]) (length pre) fs"

fun descend :: "path \<Rightarrow> nat \<Rightarrow> frame list \<Rightarrow> (event list \<times> block list) option" where
  "descend q k [] = Some ([], [])"
| "descend q k ((c, pre, post) # fs) =
     (case exec_body (q @ [k]) 0 pre (close_args (construct (q @ [k]) c)) of
        (out, ca, Normal) \<Rightarrow>
          (case descend (q @ [k]) (length pre) fs of
             None \<Rightarrow> None
           | Some (out', bs) \<Rightarrow>
               Some (dunder_enter (construct (q @ [k]) c) @ out @ out',
                     bs @ [(construct (q @ [k]) c)\<lparr>close_args := ca\<rparr>]))
      | (out, ca, Raised e) \<Rightarrow> None)"

section \<open>Well-nested streams\<close>

text \<open>
  The block at \<open>q\<close> is inside the block at \<open>p\<close> when \<open>p\<close> is a prefix of \<open>q\<close>. Two
  records \<open>e\<close>, \<open>e'\<close> printed in this order are in nesting order when \<open>e\<close> is not the close
  record of the block of \<open>e'\<close> or of a block around it, and \<open>e'\<close> is not the start record
  of the block of \<open>e\<close> or of a block around it.
\<close>

definition ordered :: "event \<Rightarrow> event \<Rightarrow> bool" where
  "ordered e e' =
     (\<not> (site e = At_exit \<and> prefix (emitter e) (emitter e'))
      \<and> \<not> (site e' = At_enter \<and> prefix (emitter e') (emitter e)))"

definition starts :: "event list \<Rightarrow> path list" where
  "starts out = map emitter (filter (\<lambda>e. site e = At_enter) out)"

definition closes :: "event list \<Rightarrow> path list" where
  "closes out = map emitter (filter (\<lambda>e. site e = At_exit) out)"

definition nested :: "event list \<Rightarrow> bool" where
  "nested out = (sorted_wrt ordered out \<and> distinct (starts out) \<and> distinct (closes out))"

text \<open>
  What holds of the records of a block body run from its \<open>k\<close>-th statement, and of the
  records of a whole \<^verbatim>\<open>with\<close> statement; \<open>fresh_note\<close> says where the note of a signal
  that is still to be printed was constructed.
\<close>

definition below :: "path \<Rightarrow> nat \<Rightarrow> nat \<Rightarrow> event list \<Rightarrow> bool" where
  "below p k u out = (\<forall>e\<in>set out. \<exists>j. k \<le> j \<and> j < u \<and> prefix (p @ [j]) (emitter e))"

definition fresh_note :: "path \<Rightarrow> nat \<Rightarrow> outcome \<Rightarrow> bool" where
  "fresh_note p u r =
     (\<forall>x m. r = Raised (DodonaExc x) \<and> message x = Some m \<longrightarrow>
        klass m = Message \<and> (\<exists>j\<ge>u. ident m = p @ [j]))"

definition body_inv :: "path \<Rightarrow> nat \<Rightarrow> event list \<Rightarrow> outcome \<Rightarrow> bool" where
  "body_inv p k out r =
     (nested out
      \<and> (\<exists>u\<ge>k. below p k u out \<and> fresh_note p u r)
      \<and> (\<forall>e\<in>set out. \<forall>q. strict_prefix p q \<and> prefix q (emitter e) \<longrightarrow> q \<in> set (starts out)))"

definition with_inv :: "path \<Rightarrow> event list \<Rightarrow> outcome \<Rightarrow> bool" where
  "with_inv p out r =
     (nested out
      \<and> (\<forall>e\<in>set out. prefix p (emitter e))
      \<and> (\<forall>e\<in>set out. \<forall>q. prefix p q \<and> prefix q (emitter e) \<longrightarrow> q \<in> set (starts out))
      \<and> p \<in> set (starts out)
      \<and> (\<forall>x. r = Raised (DodonaExc x) \<longrightarrow> message x = None))"

section \<open>Comparing two renderings\<close>

text \<open>
  \<^verbatim>\<open>diff_images\<close> of \<^verbatim>\<open>runtime.py\<close> calls two functions of the Pillow library, which is
  not part of the repository: they are parameters of the definition. An image is a list
  of bands, a band a list of rows, a row a list of samples.
\<close>

type_synonym image = "nat list list list"

definition diff_images ::
  "(image \<Rightarrow> image \<Rightarrow> string + image) \<Rightarrow> (image \<Rightarrow> nat list) \<Rightarrow> image \<Rightarrow> image \<Rightarrow> string + int" where
  "diff_images difference histogram image1 image2 =
     (case difference image1 image2 of
        Inl err \<Rightarrow> Inl err
      | Inr diff \<Rightarrow> Inr (int (sum_list (histogram diff))))"

text \<open>
  The two Pillow functions as their documentation describes them, for images of 8-bit
  bands. \<^verbatim>\<open>ImageChops.difference\<close> is the absolute value of the pixel-by-pixel difference,
  on the common part of the two images, and raises \<^verbatim>\<open>ValueError\<close> when the modes (here:
  the numbers of bands) differ. \<^verbatim>\<open>Image.histogram\<close> is the list of pixel counts, one for
  each of the 256 values, the histograms of the bands one after the other.
\<close>

definition ImageChops_difference :: "image \<Rightarrow> image \<Rightarrow> string + image" where
  "ImageChops_difference image1 image2 =
     (if length image1 \<noteq> length image2 then Inl ''ValueError''
      else Inr (map2 (map2 (map2 (\<lambda>a b. if a \<le> b then b - a else a - b))) image1 image2))"

definition Image_histogram :: "image \<Rightarrow> nat list" where
  "Image_histogram im =
     concat (map (\<lambda>band. map (\<lambda>v. count_list (concat band) v) [0..<256]) im)"

text \<open>Whether the block \<open>b\<close> printed an \<^verbatim>\<open>escalate-status\<close> record among \<open>out\<close>.\<close>

definition escalated_by :: "block \<Rightarrow> event list \<Rightarrow> bool" where
  "escalated_by b out = list_ex (\<lambda>e. emitter e = ident b \<and> site e = At_escalate) out"

section \<open>Facts about dictionaries, classes and handlers\<close>

lemma map_of_all_same:
  "k \<in> fst ` set xs \<Longrightarrow> \<forall>(k', v') \<in> set xs. k' = k \<longrightarrow> v' = v \<Longrightarrow> map_of xs k = Some v"
  by (induction xs) auto

lemma map_of_replace_other:
  "k' \<noteq> k \<Longrightarrow> map_of (map (\<lambda>(a, b). (a, if a = k then v else b)) d) k' = map_of d k'"
  by (induction d) auto

lemma keys_replace: "fst ` set (map (\<lambda>(a, b). (a, g a b)) d) = fst ` set d"
  by (induction d) auto

lemma key_in_dict_set: "k \<in> fst ` set (dict_set k v d)"
proof (cases "k \<in> fst ` set d")
  case True
  then show ?thesis
    unfolding dict_set_def set_map by (simp only: if_True keys_replace)
next
  case False
  then show ?thesis
    unfolding dict_set_def set_map by simp
qed

lemma vals_dict_set: "(k, w) \<in> set (dict_set k v d) \<Longrightarrow> w = v"
  by (force simp: dict_set_def split: if_splits)

lemma dict_get_set: "dict_get (dict_set k v d) k' = (if k' = k then Some v else dict_get d k')"
proof (cases "k' = k")
  case True
  have "map_of (dict_set k v d) k = Some v"
    by (rule map_of_all_same) (auto simp: key_in_dict_set dest: vals_dict_set)
  with True show ?thesis by (simp add: dict_get_def)
next
  case False
  then show ?thesis
    by (simp add: dict_get_def dict_set_def map_of_replace_other map_add_def
        split: option.splits)
qed

lemma map_of_rev_set: "map_of (rev (dict_set k v d)) k = Some v"
  by (rule map_of_all_same) (auto simp: key_in_dict_set dest: vals_dict_set)


lemma dict_get_fold:
  "dict_get (fold (\<lambda>(k, v). dict_set k v) e d) k =
     (case map_of (rev e) k of None \<Rightarrow> dict_get d k | Some v \<Rightarrow> Some v)"
proof (induction e arbitrary: d)
  case Nil
  then show ?case by simp
next
  case (Cons a e)
  obtain k' v' where a: "a = (k', v')" by (cases a)
  show ?case
    by (simp add: a Cons.IH dict_get_set map_add_def split: option.splits)
qed

lemma dict_get_update:
  "dict_get (dict_update d e) k =
     (case map_of (rev e) k of None \<Rightarrow> dict_get d k | Some v \<Rightarrow> Some v)"
  by (simp add: dict_update_def dict_get_fold)

lemma dict_get_update_set: "dict_get (dict_update d (dict_set k v e)) k = Some v"
  by (simp add: dict_get_update map_of_rev_set)

subsection \<open>Classes\<close>

lemma issubclass_refl: "issubclass c c"
  by (cases c) (simp_all add: issubclass_def)

lemma issubclass_step:
  "issubclass c d = (c = d \<or> (\<exists>s. superclass c = Some s \<and> issubclass s d))"
  by (cases c; cases d) (simp_all add: issubclass_def)

lemma issubclass_status_accepted:
  "issubclass c DodonaCommandWithStatus \<Longrightarrow> issubclass c DodonaCommandWithAccepted"
  by (cases c) (simp_all add: issubclass_def)

subsection \<open>Handlers and leaving a block\<close>

lemmas handler_defs = handle_dodona_exception_def WithStatus_handle_def
  WithAccepted_handle_def DodonaCommand_handle_def setattr_close_def

lemma handle_unfold:
  assumes "dict_get (status x) ''enum'' = Some v"
  shows "handle_dodona_exception b x =
    (note_events x @ escalate_events b x, after_handler b x, x\<lparr>message := None\<rparr>,
     Inr (issubclass (klass b) (recover_at x)))"
  using assms
  by (simp add: after_handler_def handler_defs note_events_def
      escalate_events_def print_command_def Let_def)


lemma handle_plain:
  assumes "\<not> issubclass (klass b) DodonaCommandWithAccepted"
  shows "handle_dodona_exception b x =
    (note_events x @ escalate_events b x, b, x\<lparr>message := None\<rparr>,
     Inr (issubclass (klass b) (recover_at x)))"
proof -
  have "\<not> issubclass (klass b) DodonaCommandWithStatus"
    using assms issubclass_status_accepted by blast
  then show ?thesis
    using assms
    by (simp add: handle_dodona_exception_def DodonaCommand_handle_def note_events_def
        escalate_events_def print_command_def Let_def)
qed

lemma handle_keyerror:
  assumes "issubclass (klass b) DodonaCommandWithAccepted" "dict_get (status x) ''enum'' = None"
  shows "handle_dodona_exception b x = ([], after_handler b x, x, Inl ''KeyError'')"
  using assms
  by (simp add: after_handler_def handle_dodona_exception_def WithStatus_handle_def
      WithAccepted_handle_def setattr_close_def)

lemma after_handler_plain:
  "\<not> issubclass (klass b) DodonaCommandWithAccepted \<Longrightarrow> after_handler b x = b"
  by (simp add: after_handler_def handle_plain)

lemma after_handler_ident [simp]: "ident (after_handler b x) = ident b"
  by (simp add: after_handler_def handler_defs Let_def split: option.splits)

lemma after_handler_klass [simp]: "klass (after_handler b x) = klass b"
  by (simp add: after_handler_def handler_defs Let_def split: option.splits)

lemma after_handler_start_args [simp]: "start_args (after_handler b x) = start_args b"
  by (simp add: after_handler_def handler_defs Let_def split: option.splits)

lemma after_handler_message [simp]:
  "after_handler b (x\<lparr>message := m\<rparr>) = after_handler b x"
  by (simp add: after_handler_def handler_defs Let_def split: option.splits)

lemma after_handler_close_args:
  assumes "dict_get (status x) ''enum'' = Some v"
  shows "close_args (after_handler b x) =
    (if issubclass (klass b) DodonaCommandWithStatus
     then dict_set ''accepted'' (JBool (v = JStr ''correct'' \<or> v = JStr ''correct answer''))
            (dict_set ''status'' (JObj (status x)) (close_args b))
     else if issubclass (klass b) DodonaCommandWithAccepted
     then dict_set ''accepted'' (JBool (v = JStr ''correct'' \<or> v = JStr ''correct answer''))
            (close_args b)
     else close_args b)"
  using assms
  by (simp add: after_handler_def handler_defs Let_def)

lemma with_exit_Normal: "with_exit b Normal = (close_events b, b, Normal)"
  by (simp add: with_exit_def dunder_exit_def close_events_def)

lemma with_exit_Other:
  "with_exit b (Raised (OtherExc n)) = (close_events b, b, Raised (OtherExc n))"
  by (simp add: with_exit_def dunder_exit_def close_events_def)

lemma with_exit_Dodona:
  assumes "dict_get (status x) ''enum'' = Some v"
  shows "with_exit b (Raised (DodonaExc x)) =
    (note_events x @ escalate_events b x @ close_events (after_handler b x),
     after_handler b x,
     if issubclass (klass b) (recover_at x) then Normal
     else Raised (DodonaExc (x\<lparr>message := None\<rparr>)))"
  by (simp add: with_exit_def dunder_exit_def handle_unfold[OF assms] close_events_def)

lemma with_exit_Dodona_plain:
  assumes "\<not> issubclass (klass b) DodonaCommandWithAccepted"
  shows "with_exit b (Raised (DodonaExc x)) =
    (note_events x @ escalate_events b x @ close_events b, b,
     if issubclass (klass b) (recover_at x) then Normal
     else Raised (DodonaExc (x\<lparr>message := None\<rparr>)))"
  by (simp add: with_exit_def dunder_exit_def handle_plain[OF assms] close_events_def)

lemma with_exit_KeyError:
  assumes "issubclass (klass b) DodonaCommandWithAccepted" "dict_get (status x) ''enum'' = None"
  shows "with_exit b (Raised (DodonaExc x)) = ([], after_handler b x, Raised (OtherExc ''KeyError''))"
  by (simp add: with_exit_def dunder_exit_def handle_keyerror[OF assms])


lemma ErrorType_correct:
  "(JStr (ErrorType_value e) = JStr ''correct'' \<or> JStr (ErrorType_value e) = JStr ''correct answer'')
     = (e = CORRECT \<or> e = CORRECT_ANSWER)"
  by (cases e) simp_all

lemma name_values:
  "name (DodonaCommand_init p TestCase kw) = ''testcase''"
  "name (DodonaCommand_init p Judgement kw) = ''judgement''"
  by (simp_all add: name_def lower_def lower_char_def DodonaCommand_init_def)

subsection \<open>A signal leaving the open blocks\<close>

lemma map_of_rev_set_other:
  "k' \<noteq> k \<Longrightarrow> map_of (rev (dict_set k v d)) k' = map_of (rev d) k'"
  by (simp add: dict_set_def rev_map map_of_replace_other)

lemma note_events_stripped [simp]: "note_events (x\<lparr>message := None\<rparr>) = []"
  by (simp add: note_events_def)

lemma escalate_events_message [simp]:
  "escalate_events b (x\<lparr>message := m\<rparr>) = escalate_events b x"
  by (simp add: escalate_events_def)

lemma escalate_events_no_match:
  "\<not> issubclass (klass b) (recover_at x) \<Longrightarrow> escalate_events b x = []"
  by (simp add: escalate_events_def)

lemma unwind_match:
  assumes "dict_get (status x) ''enum'' = Some v" "issubclass (klass m) (recover_at x)"
  shows "unwind (m # rest) (DodonaExc x) =
    (note_events x @ escalate_events m x @ close_events (after_handler m x),
     [after_handler m x], Normal)"
  using assms(2) by (simp add: with_exit_Dodona[OF assms(1)])

lemma unwind_pass:
  assumes "dict_get (status x) ''enum'' = Some v" "\<not> issubclass (klass b) (recover_at x)"
  shows "unwind (b # rest) (DodonaExc x) =
    (case unwind rest (DodonaExc (x\<lparr>message := None\<rparr>)) of
       (out', bs', r) \<Rightarrow>
         (note_events x @ close_events (after_handler b x) @ out', after_handler b x # bs', r))"
  using assms(2) by (simp add: with_exit_Dodona[OF assms(1)] escalate_events_no_match split: prod.splits)

lemma unwind_caught:
  assumes "dict_get (status x) ''enum'' = Some v"
    and "\<forall>b\<in>set bs. \<not> issubclass (klass b) (recover_at x)"
    and "issubclass (klass m) (recover_at x)"
  shows "unwind (bs @ m # rest) (DodonaExc x) =
    (note_events x @ concat (map (\<lambda>b. close_events (after_handler b x)) bs)
       @ escalate_events m x @ close_events (after_handler m x),
     map (\<lambda>b. after_handler b x) (bs @ [m]), Normal)"
  using assms
proof (induction bs arbitrary: x)
  case Nil
  then show ?case by (simp add: unwind_match[OF Nil.prems(1)] del: unwind.simps)
next
  case (Cons b bs)
  have e: "dict_get (status (x\<lparr>message := None\<rparr>)) ''enum'' = Some v"
    using Cons.prems(1) by simp
  have "unwind (bs @ m # rest) (DodonaExc (x\<lparr>message := None\<rparr>)) =
      (concat (map (\<lambda>b. close_events (after_handler b x)) bs)
         @ escalate_events m x @ close_events (after_handler m x),
       map (\<lambda>b. after_handler b x) (bs @ [m]), Normal)"
    using Cons.IH[OF e] Cons.prems by simp
  then show ?case
    using Cons.prems by (simp add: unwind_pass[OF Cons.prems(1)] del: unwind.simps)
qed


lemma init_fields [simp]:
  "status (DodonaException_init q st r kw) = st"
  "recover_at (DodonaException_init q st None kw) = Judgement"
  "recover_at (DodonaException_init q st (Some c) kw) = c"
  "escalate_status (DodonaException_init q st None kw) = False"
  "escalate_status (DodonaException_init q st (Some c) kw) = True"
  by (simp_all add: DodonaException_init_def)

lemma note_events_init:
  "note_events (DodonaException_init q st r kw) =
     (if kw = [] then []
      else [\<lparr>emitter = q, site = At_enter,
             payload = [(''command'', JStr ''append-message''), (''message'', JObj kw)]\<rparr>])"
  by (simp add: note_events_def DodonaException_init_def Message_init_def DodonaCommand_init_def
      dunder_enter_def print_command_def start_msg_def close_msg_def dict_update_def dict_set_def)

lemma close_events_site: "e \<in> set (close_events b) \<Longrightarrow> site e = At_exit \<and> emitter e = ident b"
  by (auto simp: close_events_def print_command_def split: option.splits)

lemma escalate_events_site:
  "e \<in> set (escalate_events b x) \<Longrightarrow> site e = At_escalate \<and> emitter e = ident b"
  by (auto simp: escalate_events_def split: if_splits)

lemma close_events_payload:
  "klass b \<noteq> Message \<Longrightarrow> klass b \<noteq> Annotation \<Longrightarrow>
   close_events b = [\<lparr>emitter = ident b, site = At_exit,
     payload = dict_update [(''command'', JStr (''close-'' @ name b))] (close_args b)\<rparr>]"
  by (simp add: close_events_def print_command_def close_msg_def)

lemma issubclass_Judgement: "issubclass c Judgement = (c = Judgement)"
  by (cases c) (simp_all add: issubclass_def)

lemma accepted_not_inline:
  "issubclass c DodonaCommandWithAccepted \<Longrightarrow> c \<noteq> Message \<and> c \<noteq> Annotation"
  by (cases c) (simp_all add: issubclass_def)

lemma filter_site_close [simp]:
  "filter (\<lambda>e. site e = At_escalate) (close_events b) = []"
  by (simp add: close_events_def print_command_def split: option.splits)

lemma filter_site_closes [simp]:
  "filter (\<lambda>e. site e = At_escalate) (concat (map (\<lambda>b. close_events (f b)) bs)) = []"
  by (induction bs) simp_all

lemma unwind_sites:
  assumes "dict_get (status x) ''enum'' = Some v" "message x = None"
  shows "(\<forall>e\<in>set (fst (unwind bs (DodonaExc x))). site e \<noteq> At_enter)
       \<and> (\<forall>y. snd (snd (unwind bs (DodonaExc x))) = Raised y \<longrightarrow> y = DodonaExc x)"
proof (induction bs)
  case Nil
  then show ?case by simp
next
  case (Cons b bs)
  have x: "x\<lparr>message := None\<rparr> = x" using assms(2) by simp
  have n: "note_events x = []" using assms(2) by (simp add: note_events_def)
  show ?case
    using Cons.IH
    by (auto simp: with_exit_Dodona[OF assms(1)] x n split: prod.splits
        dest: close_events_site escalate_events_site)
qed


lemma payload_lookup_set:
  "dict_get (dict_update d (dict_set k v e)) k = Some v"
  by (rule dict_get_update_set)

lemma payload_lookup_set2:
  "k' \<noteq> k \<Longrightarrow> dict_get (dict_update d (dict_set k' v' (dict_set k v e))) k = Some v"
  by (simp add: dict_get_update map_of_rev_set_other map_of_rev_set)

lemma payload_lookup_accepted:
  assumes "dict_get (status x) ''enum'' = Some v" "issubclass (klass b) DodonaCommandWithAccepted"
  shows "dict_get (dict_update d (close_args (after_handler b x))) ''accepted''
           = Some (JBool (v = JStr ''correct'' \<or> v = JStr ''correct answer''))"
  using assms(2) by (simp add: after_handler_close_args[OF assms(1)] payload_lookup_set)

lemma payload_lookup_status:
  assumes "dict_get (status x) ''enum'' = Some v" "issubclass (klass b) DodonaCommandWithStatus"
  shows "dict_get (dict_update d (close_args (after_handler b x))) ''status''
           = Some (JObj (status x))"
  using assms(2) by (simp add: after_handler_close_args[OF assms(1)] payload_lookup_set2)

lemma close_args_accepted:
  assumes "dict_get (status x) ''enum'' = Some v" "issubclass (klass b) DodonaCommandWithAccepted"
  shows "dict_get (close_args (after_handler b x)) ''accepted''
           = Some (JBool (v = JStr ''correct'' \<or> v = JStr ''correct answer''))"
  using assms(2) by (simp add: after_handler_close_args[OF assms(1)] dict_get_set)

lemma close_args_status:
  assumes "dict_get (status x) ''enum'' = Some v" "issubclass (klass b) DodonaCommandWithStatus"
  shows "dict_get (close_args (after_handler b x)) ''status'' = Some (JObj (status x))"
  using assms(2) by (simp add: after_handler_close_args[OF assms(1)] dict_get_set)

lemma escalated_by_append [simp]:
  "escalated_by b (xs @ ys) = (escalated_by b xs \<or> escalated_by b ys)"
  by (simp add: escalated_by_def)

lemma escalated_by_exit:
  "escalated_by b out = (\<exists>e\<in>set out. emitter e = ident b \<and> site e = At_escalate)"
  by (simp add: escalated_by_def list_ex_iff)

lemmas eval_defs = with_exit_def dunder_exit_def handle_dodona_exception_def WithStatus_handle_def
  WithAccepted_handle_def DodonaCommand_handle_def setattr_close_def issubclass_def
  DodonaException_init_def DodonaCommand_init_def Message_init_def Test_init_def TestCase_init_def
  Tab_init_def Annotation_init_def
  dunder_enter_def print_command_def start_msg_def close_msg_def name_def lower_def lower_char_def
  dict_update_def dict_set_def dict_get_def escalated_by_def Let_def

subsection \<open>Histograms\<close>

lemma sum_indicator:
  "sum_list (map (\<lambda>v. if a = v then 1 else 0) [0..<n]) = (if a < n then 1 else (0::nat))"
  by (induction n) auto

lemma sum_count_upto:
  "\<forall>x\<in>set xs. x < n \<Longrightarrow> sum_list (map (\<lambda>v. count_list xs v) [0..<n]) = length xs"
proof (induction xs)
  case Nil
  then show ?case by (induction n) simp_all
next
  case (Cons a xs)
  have "sum_list (map (\<lambda>v. count_list (a # xs) v) [0..<n])
        = (\<Sum>v\<leftarrow>[0..<n]. count_list xs v + (if a = v then 1 else 0))"
    by (intro arg_cong[where f=sum_list] map_cong) auto
  also have "\<dots> = sum_list (map (\<lambda>v. count_list xs v) [0..<n])
          + sum_list (map (\<lambda>v. if a = v then 1 else 0) [0..<n])"
    by (rule sum_list_addf)
  also have "sum_list (map (\<lambda>v. if a = v then 1 else 0) [0..<n]) = (1::nat)"
    using Cons.prems by (simp add: sum_indicator)
  finally show ?case using Cons by simp
qed

lemma histogram_total:
  "\<forall>band\<in>set im. \<forall>row\<in>set band. \<forall>x\<in>set row. x < 256 \<Longrightarrow>
   sum_list (Image_histogram im) = length (concat (concat im))"
proof (induction im)
  case Nil
  then show ?case by (simp add: Image_histogram_def)
next
  case (Cons b im)
  have "\<forall>x\<in>set (concat b). x < 256" using Cons.prems by auto
  then have "sum_list (map (\<lambda>v. count_list (concat b) v) [0..<256]) = length (concat b)"
    by (rule sum_count_upto)
  moreover have "sum_list (Image_histogram im) = length (concat (concat im))"
    using Cons by simp
  ultimately show ?case
    by (simp add: Image_histogram_def)
qed

lemma self_difference:
  "map2 (map2 (map2 (\<lambda>a b. if a \<le> b then b - a else a - b))) im im
     = map (map (map (\<lambda>a. 0::nat))) im"
  by (simp add: zip_same_conv_map map_idI cong: map_cong)

lemma identical_images_general:
  "diff_images ImageChops_difference Image_histogram im im
     = Inr (int (length (concat (concat im))))"
proof -
  have "sum_list (Image_histogram (map (map (map (\<lambda>a. 0::nat))) im))
      = length (concat (concat (map (map (map (\<lambda>a. 0::nat))) im)))"
    by (rule histogram_total) auto
  also have "\<dots> = length (concat (concat im))"
    by (simp add: length_concat map_concat comp_def)
  finally show ?thesis
    by (simp add: diff_images_def ImageChops_difference_def self_difference)
qed


subsection \<open>Nesting\<close>

lemma starts_append [simp]: "starts (xs @ ys) = starts xs @ starts ys"
  by (simp add: starts_def)

lemma closes_append [simp]: "closes (xs @ ys) = closes xs @ closes ys"
  by (simp add: closes_def)

lemma starts_Cons [simp]:
  "starts (e # xs) = (if site e = At_enter then emitter e # starts xs else starts xs)"
  by (simp add: starts_def)

lemma closes_Cons [simp]:
  "closes (e # xs) = (if site e = At_exit then emitter e # closes xs else closes xs)"
  by (simp add: closes_def)

lemma starts_Nil [simp]: "starts [] = []"
  by (simp add: starts_def)

lemma closes_Nil [simp]: "closes [] = []"
  by (simp add: closes_def)

lemma in_starts: "q \<in> set (starts out) \<longleftrightarrow> (\<exists>e\<in>set out. emitter e = q \<and> site e = At_enter)"
  by (auto simp: starts_def)

lemma in_closes: "q \<in> set (closes out) \<longleftrightarrow> (\<exists>e\<in>set out. emitter e = q \<and> site e = At_exit)"
  by (auto simp: closes_def)

lemma nested_Nil [simp]: "nested []"
  by (simp add: nested_def)

lemma nested_append:
  "nested (xs @ ys) \<longleftrightarrow>
     nested xs \<and> nested ys \<and> (\<forall>x\<in>set xs. \<forall>y\<in>set ys. ordered x y)
     \<and> set (starts xs) \<inter> set (starts ys) = {} \<and> set (closes xs) \<inter> set (closes ys) = {}"
  by (auto simp: nested_def sorted_wrt_append)

lemma nested_Cons:
  "nested (x # ys) \<longleftrightarrow>
     nested ys \<and> (\<forall>y\<in>set ys. ordered x y)
     \<and> (site x = At_enter \<longrightarrow> emitter x \<notin> set (starts ys))
     \<and> (site x = At_exit \<longrightarrow> emitter x \<notin> set (closes ys))"
  by (auto simp: nested_def)

lemma sorted_wrt_all: "(\<forall>x\<in>set xs. \<forall>y\<in>set xs. P x y) \<Longrightarrow> sorted_wrt P xs"
  by (induction xs) auto

lemma below_prefix:
  "below p k u out \<Longrightarrow> e \<in> set out \<Longrightarrow> strict_prefix p (emitter e)"
  by (auto simp: below_def prefix_def strict_prefix_def)

lemma below_incomparable:
  assumes "below p k u out" "e \<in> set out" "u \<le> j"
  shows "\<not> prefix (emitter e) (p @ [j])" "\<not> prefix (p @ [j]) (emitter e)"
proof -
  obtain i zs where i: "k \<le> i" "i < u" "emitter e = p @ [i] @ zs"
    using assms(1,2) by (auto simp: below_def prefix_def)
  show "\<not> prefix (emitter e) (p @ [j])"
    using i assms(3) by (auto simp: prefix_def append_eq_append_conv2 Cons_eq_append_conv)
  show "\<not> prefix (p @ [j]) (emitter e)"
    using i assms(3) by (auto simp: prefix_def)
qed


lemma nested_block:
  assumes out: "nested out" "below p k u out"
    and N: "N = [] \<or> (\<exists>j\<ge>u. \<exists>d. N = [\<lparr>emitter = p @ [j], site = At_enter, payload = d\<rparr>])"
    and E: "\<forall>e\<in>set E. emitter e = p \<and> site e = At_escalate"
    and C: "C = [] \<or> (\<exists>d. C = [\<lparr>emitter = p, site = At_exit, payload = d\<rparr>])"
  shows "nested (\<lparr>emitter = p, site = At_enter, payload = s\<rparr> # out @ N @ E @ C)"
proof -
  have sp: "strict_prefix p (emitter e)" if "e \<in> set out" for e
    using below_prefix[OF out(2) that] .
  have nE: "nested E"
    unfolding nested_def using E
    by (auto simp: in_starts in_closes ordered_def starts_def closes_def
        filter_empty_conv intro!: sorted_wrt_all)
  have nC: "nested C"
    using C by (auto simp: nested_Cons)
  have nN: "nested N"
    using N by (auto simp: nested_Cons)
  have nEC: "nested (E @ C)"
    using nE nC E C by (auto simp: nested_append ordered_def in_starts in_closes)
  have nNEC: "nested (N @ E @ C)"
    using nN nEC N E C
    by (auto simp: nested_append ordered_def in_starts in_closes)
  have NEC: "e \<in> set (N @ E @ C) \<Longrightarrow>
      (emitter e = p \<and> site e \<noteq> At_enter) \<or> (\<exists>j\<ge>u. emitter e = p @ [j] \<and> site e = At_enter)" for e
    using N E C by auto
  have cross: "ordered x y" if "x \<in> set out" "y \<in> set (N @ E @ C)" for x y
  proof -
    from NEC[OF that(2)] show ?thesis
    proof
      assume "emitter y = p \<and> site y \<noteq> At_enter"
      then show ?thesis
        using sp[OF that(1)] by (auto simp: ordered_def)
    next
      assume "\<exists>j\<ge>u. emitter y = p @ [j] \<and> site y = At_enter"
      then show ?thesis
        using below_incomparable[OF out(2) that(1)] by (auto simp: ordered_def)
    qed
  qed
  have ds: "set (starts out) \<inter> set (starts (N @ E @ C)) = {}"
  proof -
    have False if "e \<in> set out" "e' \<in> set (N @ E @ C)" "site e' = At_enter"
      "emitter e = emitter e'" for e e'
      using NEC[OF that(2)] that(3,4) below_incomparable[OF out(2) that(1)]
      by (metis prefix_order.order_refl)
    then show ?thesis
      unfolding in_starts disjoint_iff by metis
  qed
  have dc: "set (closes out) \<inter> set (closes (N @ E @ C)) = {}"
  proof -
    have False if "e \<in> set out" "e' \<in> set (N @ E @ C)" "site e' = At_exit"
      "emitter e = emitter e'" for e e'
      using NEC[OF that(2)] that(3,4) sp[OF that(1)] by auto
    then show ?thesis
      unfolding in_closes disjoint_iff by metis
  qed
  have tail: "nested (out @ N @ E @ C)"
    using out(1) nNEC cross ds dc by (simp only: nested_append) blast
  have first: "ordered \<lparr>emitter = p, site = At_enter, payload = s\<rparr> y"
    if "y \<in> set (out @ N @ E @ C)" for y
  proof (cases "y \<in> set out")
    case True
    then show ?thesis using sp[OF True] by (auto simp: ordered_def)
  next
    case False
    then have "y \<in> set (N @ E @ C)" using that by auto
    from NEC[OF this] show ?thesis by (auto simp: ordered_def)
  qed
  have fresh: "p \<notin> set (starts (out @ N @ E @ C))"
  proof
    assume "p \<in> set (starts (out @ N @ E @ C))"
    then obtain e where e: "e \<in> set (out @ N @ E @ C)" "emitter e = p" "site e = At_enter"
      unfolding in_starts by blast
    show False
    proof (cases "e \<in> set out")
      case True
      then show ?thesis using sp[OF True] e by auto
    next
      case False
      then have "e \<in> set (N @ E @ C)" using e by auto
      from NEC[OF this] e show ?thesis by auto
    qed
  qed
  show ?thesis
    using tail first fresh by (simp add: nested_Cons)
qed


lemma close_events_cases:
  "close_events b = [] \<or> (\<exists>d. close_events b = [\<lparr>emitter = ident b, site = At_exit, payload = d\<rparr>])"
  by (simp add: close_events_def print_command_def split: option.splits)

lemma note_events_cases:
  "note_events x = (case message x of
      None \<Rightarrow> []
    | Some m \<Rightarrow> \<lparr>emitter = ident m, site = At_enter, payload = start_msg m\<rparr>
                 # close_events m)"
  by (simp add: note_events_def dunder_enter_def print_command_def close_events_def
      split: option.splits)

lemma close_events_Message: "klass m = Message \<Longrightarrow> close_events m = []"
  by (simp add: close_events_def close_msg_def print_command_def)

lemma with_exit_shape:
  "\<exists>N E C. fst (with_exit b r) = N @ E @ C
     \<and> (N = [] \<or> (\<exists>x. r = Raised (DodonaExc x) \<and> N = note_events x))
     \<and> (\<forall>e\<in>set E. emitter e = ident b \<and> site e = At_escalate)
     \<and> (C = [] \<or> (\<exists>d. C = [\<lparr>emitter = ident b, site = At_exit, payload = d\<rparr>]))"
proof (cases r)
  case Normal
  show ?thesis
    using close_events_cases[of b]
    by (intro exI[of _ "[]"] exI[of _ "close_events b"]) (simp add: Normal with_exit_Normal)
next
  case (Raised ex)
  show ?thesis
  proof (cases ex)
    case (OtherExc n)
    show ?thesis
      using close_events_cases[of b]
      by (intro exI[of _ "[]"] exI[of _ "close_events b"])
         (simp add: Raised OtherExc with_exit_Other)
  next
    case (DodonaExc x)
    consider (key) "issubclass (klass b) DodonaCommandWithAccepted" "dict_get (status x) ''enum'' = None"
      | (plain) "\<not> issubclass (klass b) DodonaCommandWithAccepted"
      | (ok) v where "dict_get (status x) ''enum'' = Some v"
      by (cases "dict_get (status x) ''enum''") auto
    then show ?thesis
    proof cases
      case key
      then show ?thesis
        by (intro exI[of _ "[]"]) (simp add: Raised DodonaExc with_exit_KeyError)
    next
      case plain
      show ?thesis
        using close_events_cases[of b]
        by (intro exI[of _ "note_events x"] exI[of _ "escalate_events b x"]
            exI[of _ "close_events b"])
           (auto simp: Raised DodonaExc with_exit_Dodona_plain[OF plain]
             dest: escalate_events_site)
    next
      case ok
      show ?thesis
        using close_events_cases[of "after_handler b x"]
        by (intro exI[of _ "note_events x"] exI[of _ "escalate_events b x"]
            exI[of _ "close_events (after_handler b x)"])
           (auto simp: Raised DodonaExc with_exit_Dodona[OF ok]
             dest: escalate_events_site)
    qed
  qed
qed

lemma with_exit_stripped:
  "snd (snd (with_exit b r)) = Raised (DodonaExc x') \<Longrightarrow> message x' = None"
  by (auto simp: with_exit_def dunder_exit_def handler_defs Let_def
      split: outcome.splits exn.splits prod.splits sum.splits option.splits if_splits)


lemma construct_ident [simp]: "ident (construct p c) = p"
  by (cases c) (simp_all add: DodonaCommand_init_def Tab_init_def TestCase_init_def
      Test_init_def Message_init_def Annotation_init_def)

lemma between_singleton:
  "prefix p q \<Longrightarrow> prefix q (p @ [j]) \<Longrightarrow> q = p \<or> q = p @ [j]"
  by (auto simp: prefix_def append_eq_append_conv2 Cons_eq_append_conv)

lemma with_step:
  assumes inv: "body_inv p 0 out r" and b: "ident b = p"
  shows "with_inv p (\<lparr>emitter = p, site = At_enter, payload = s\<rparr> # out @ fst (with_exit b r))
           (snd (snd (with_exit b r)))"
proof -
  from inv obtain u where n: "nested out" and bl: "below p 0 u out" and fr: "fresh_note p u r"
    and rt: "\<forall>e\<in>set out. \<forall>q. strict_prefix p q \<and> prefix q (emitter e) \<longrightarrow> q \<in> set (starts out)"
    unfolding body_inv_def by blast
  from with_exit_shape[of b r] obtain N E C where
    sh: "fst (with_exit b r) = N @ E @ C"
    and N: "N = [] \<or> (\<exists>x. r = Raised (DodonaExc x) \<and> N = note_events x)"
    and E: "\<forall>e\<in>set E. emitter e = p \<and> site e = At_escalate"
    and C: "C = [] \<or> (\<exists>d. C = [\<lparr>emitter = p, site = At_exit, payload = d\<rparr>])"
    unfolding b by blast
  have N': "N = [] \<or> (\<exists>j\<ge>u. \<exists>d. N = [\<lparr>emitter = p @ [j], site = At_enter, payload = d\<rparr>])"
  proof (cases "N = []")
    case True
    then show ?thesis by simp
  next
    case False
    then obtain x where x: "r = Raised (DodonaExc x)" "N = note_events x"
      using N by blast
    then obtain m where m: "message x = Some m"
      using False by (cases "message x") (auto simp: note_events_cases)
    then have "klass m = Message" and "\<exists>j\<ge>u. ident m = p @ [j]"
      using fr x(1) unfolding fresh_note_def by blast+
    then show ?thesis
      using x(2) m by (auto simp: note_events_cases close_events_Message)
  qed
  let ?T = "\<lparr>emitter = p, site = At_enter, payload = s\<rparr> # out @ N @ E @ C"
  have nest: "nested ?T"
    by (rule nested_block[OF n bl N' E C])
  have tail: "e \<in> set (N @ E @ C) \<Longrightarrow>
      emitter e = p \<or> (\<exists>j. emitter e = p @ [j] \<and> site e = At_enter)" for e
    using N' E C by auto
  have tailp: "prefix p (emitter e)" if "e \<in> set (N @ E @ C)" for e
    using tail[OF that] by auto
  have pre: "\<forall>e\<in>set ?T. prefix p (emitter e)"
  proof
    fix e assume "e \<in> set ?T"
    then consider "emitter e = p" | "e \<in> set out" | "e \<in> set (N @ E @ C)"
      by auto
    then show "prefix p (emitter e)"
      using below_prefix[OF bl] tailp by cases (auto simp: strict_prefix_def)
  qed
  have self: "p \<in> set (starts ?T)"
    by simp
  have root: "q \<in> set (starts ?T)" if e: "e \<in> set ?T" and q: "prefix p q" "prefix q (emitter e)"
    for e q
  proof (cases "q = p")
    case True
    then show ?thesis by simp
  next
    case False
    then have sq: "strict_prefix p q" using q(1) by (simp add: strict_prefix_def)
    have "emitter e \<noteq> p" using q False by (metis prefix_order.antisym)
    then consider "e \<in> set out" | "e \<in> set (N @ E @ C)"
      using e by auto
    then show ?thesis
    proof cases
      case 1
      then have "q \<in> set (starts out)" using rt sq q(2) by blast
      then show ?thesis by simp
    next
      case 2
      with tail[OF 2] \<open>emitter e \<noteq> p\<close> obtain j where
        j: "emitter e = p @ [j]" "site e = At_enter" by blast
      then have "q = p @ [j]" using between_singleton[OF q(1)] q(2) False by auto
      then have "q \<in> set (starts (N @ E @ C))"
        unfolding in_starts using 2 j by blast
      then show ?thesis by simp
    qed
  qed
  have strip: "\<forall>x. snd (snd (with_exit b r)) = Raised (DodonaExc x) \<longrightarrow> message x = None"
    using with_exit_stripped by blast
  show ?thesis
    unfolding with_inv_def sh using nest pre self root strip by blast
qed

lemma incomparable_children:
  assumes "prefix (p @ [k]) a" "prefix (p @ [j]) b" "k \<noteq> j"
  shows "\<not> prefix a b" "\<not> prefix b a" "a \<noteq> b"
  using assms by (auto simp: prefix_def append_eq_append_conv2 Cons_eq_append_conv)


lemma body_inv_empty: "fresh_note p k r \<Longrightarrow> body_inv p k [] r"
  unfolding body_inv_def below_def by auto

lemma body_inv_weaken: "body_inv p (Suc k) out r \<Longrightarrow> body_inv p k out r"
  unfolding body_inv_def below_def by (meson Suc_leD)

lemma fresh_note_no_note:
  "\<forall>x. r = Raised (DodonaExc x) \<longrightarrow> message x = None \<Longrightarrow> fresh_note p u r"
  unfolding fresh_note_def by auto

lemma seq_step:
  assumes w: "with_inv (p @ [k]) out1 r1" and bi: "body_inv p (Suc k) out2 r"
  shows "body_inv p k (out1 @ out2) r"
proof -
  from bi obtain u where u: "Suc k \<le> u" and n2: "nested out2"
    and bl: "below p (Suc k) u out2" and fr: "fresh_note p u r"
    and rt2: "\<forall>e\<in>set out2. \<forall>q. strict_prefix p q \<and> prefix q (emitter e) \<longrightarrow> q \<in> set (starts out2)"
    unfolding body_inv_def by blast
  from w have n1: "nested out1" and pre1: "\<forall>e\<in>set out1. prefix (p @ [k]) (emitter e)"
    and rt1: "\<forall>e\<in>set out1. \<forall>q. prefix (p @ [k]) q \<and> prefix q (emitter e) \<longrightarrow> q \<in> set (starts out1)"
    unfolding with_inv_def by blast+
  have inc: "\<not> prefix (emitter a) (emitter b) \<and> \<not> prefix (emitter b) (emitter a)
       \<and> emitter a \<noteq> emitter b"
    if "a \<in> set out1" "b \<in> set out2" for a b
  proof -
    from bl that(2) obtain j where j: "Suc k \<le> j" "prefix (p @ [j]) (emitter b)"
      unfolding below_def by blast
    have "k \<noteq> j" using j(1) by simp
    from incomparable_children[OF _ j(2) this, of "emitter a"] pre1 that(1)
    show ?thesis by blast
  qed
  have cross: "\<forall>x\<in>set out1. \<forall>y\<in>set out2. ordered x y"
    using inc by (auto simp: ordered_def)
  have ds: "set (starts out1) \<inter> set (starts out2) = {}"
    unfolding in_starts disjoint_iff using inc by metis
  have dc: "set (closes out1) \<inter> set (closes out2) = {}"
    unfolding in_closes disjoint_iff using inc by metis
  have nest: "nested (out1 @ out2)"
    unfolding nested_append using n1 n2 cross ds dc by blast
  have below: "below p k u (out1 @ out2)"
    unfolding below_def
  proof
    fix e assume "e \<in> set (out1 @ out2)"
    then consider "e \<in> set out1" | "e \<in> set out2" by auto
    then show "\<exists>j\<ge>k. j < u \<and> prefix (p @ [j]) (emitter e)"
    proof cases
      case 1
      then show ?thesis using pre1 u by (intro exI[of _ k]) auto
    next
      case 2
      then show ?thesis using bl unfolding below_def by (meson Suc_leD)
    qed
  qed
  have root: "q \<in> set (starts (out1 @ out2))"
    if e: "e \<in> set (out1 @ out2)" and q: "strict_prefix p q" "prefix q (emitter e)" for e q
  proof -
    consider "e \<in> set out1" | "e \<in> set out2" using e by auto
    then show ?thesis
    proof cases
      case 1
      then have pe: "prefix (p @ [k]) (emitter e)" using pre1 by blast
      have "prefix (p @ [k]) q"
        using pe q by (auto simp: prefix_def strict_prefix_def append_eq_append_conv2
            Cons_eq_append_conv append_eq_Cons_conv)
      then have "q \<in> set (starts out1)" using rt1 1 q(2) by blast
      then show ?thesis by simp
    next
      case 2
      then have "q \<in> set (starts out2)" using rt2 q by blast
      then show ?thesis by simp
    qed
  qed
  show ?thesis
    unfolding body_inv_def using nest below fr u root by (meson Suc_leD)
qed

lemma exec_inv:
  "body_inv p k (fst (exec_body p k ss ca)) (snd (snd (exec_body p k ss ca)))"
  "with_inv p' (fst (exec_with p' c body)) (snd (exec_with p' c body))"
proof (induction p k ss ca and p' c body rule: exec_body_exec_with.induct)
  case (1 p k ca)
  show ?case by (simp add: body_inv_empty fresh_note_def)
next
  case (2 p k a v ss ca)
  then show ?case by (simp add: body_inv_weaken)
next
  case (3 p k st r kwargs ss ca)
  show ?case
    by (simp add: body_inv_empty fresh_note_def DodonaException_init_def Message_init_def
        DodonaCommand_init_def)
next
  case (4 p k n ss ca)
  show ?case by (simp add: body_inv_empty fresh_note_def)
next
  case (5 p k c body ss ca)
  obtain out1 r1 where e1: "exec_with (p @ [k]) c body = (out1, r1)"
    by (cases "exec_with (p @ [k]) c body") auto
  have w: "with_inv (p @ [k]) out1 r1" using "5.IH"(1) e1 by (simp del: exec_with.simps)
  show ?case
  proof (cases r1)
    case Normal
    obtain out2 ca2 r2 where e2: "exec_body p (Suc k) ss ca = (out2, ca2, r2)"
      by (cases "exec_body p (Suc k) ss ca") auto
    have "body_inv p (Suc k) out2 r2"
      using "5.IH"(2)[OF e1[symmetric] Normal] e2 by simp
    from seq_step[OF w this] show ?thesis
      by (simp add: e1 Normal e2 del: exec_with.simps)
  next
    case (Raised ex)
    have "fresh_note p (Suc k) (Raised ex)"
      using w Raised unfolding with_inv_def by (intro fresh_note_no_note) blast
    then have "body_inv p (Suc k) [] (Raised ex)" by (rule body_inv_empty)
    from seq_step[OF w this] show ?thesis
      by (simp add: e1 Raised del: exec_with.simps)
  qed
next
  case (6 p c body)
  let ?self = "construct p c"
  obtain out ca r where e: "exec_body p 0 body (close_args ?self) = (out, ca, r)"
    by (cases "exec_body p 0 body (close_args ?self)") auto
  have bi: "body_inv p 0 out r" using "6.IH"[OF refl] e by simp
  have id: "ident (?self\<lparr>close_args := ca\<rparr>) = p" by simp
  from with_step[OF bi id, of "start_msg ?self"] show ?case
    by (auto simp: e dunder_enter_def print_command_def Let_def split: prod.splits)
qed


lemma count_le_one: "distinct xs \<Longrightarrow> length (filter (\<lambda>x. x = y) xs) \<le> 1"
  by (induction xs) (auto simp: filter_empty_conv)

lemma count_one:
  "distinct xs \<Longrightarrow> y \<in> set xs \<Longrightarrow> length (filter (\<lambda>x. x = y) xs) = 1"
  by (induction xs) (auto simp: filter_empty_conv)

lemma starts_count:
  "length (filter (\<lambda>e. emitter e = i \<and> site e = At_enter) out)
     = length (filter (\<lambda>q. q = i) (starts out))"
  by (induction out) (auto simp: starts_def)

lemma closes_count:
  "length (filter (\<lambda>e. emitter e = i \<and> site e = At_exit) out)
     = length (filter (\<lambda>q. q = i) (closes out))"
  by (induction out) (auto simp: closes_def)

lemma nested_order:
  assumes "nested out" "k < length out" "n < length out" "k \<noteq> n"
  shows "site (out ! k) = At_enter \<Longrightarrow> prefix (emitter (out ! k)) (emitter (out ! n)) \<Longrightarrow> k < n"
    and "site (out ! n) = At_exit \<Longrightarrow> prefix (emitter (out ! n)) (emitter (out ! k)) \<Longrightarrow> k < n"
proof -
  have s: "sorted_wrt ordered out" using assms(1) by (simp add: nested_def)
  have o: "ordered (out ! n) (out ! k)" if "n < k"
    using s that assms(2) by (simp add: sorted_wrt_iff_nth_less)
  show "site (out ! k) = At_enter \<Longrightarrow> prefix (emitter (out ! k)) (emitter (out ! n)) \<Longrightarrow> k < n"
    using o assms(4) by (cases "n < k") (auto simp: ordered_def)
  show "site (out ! n) = At_exit \<Longrightarrow> prefix (emitter (out ! n)) (emitter (out ! k)) \<Longrightarrow> k < n"
    using o assms(4) by (cases "n < k") (auto simp: ordered_def)
qed

section \<open>From programs to the blocks a signal leaves\<close>

lemma exec_body_append:
  "exec_body p k (xs @ ys) ca =
     (case exec_body p k xs ca of
        (out, ca', Normal) \<Rightarrow>
          (case exec_body p (k + length xs) ys ca' of
             (out', ca'', r) \<Rightarrow> (out @ out', ca'', r))
      | (out, ca', Raised e) \<Rightarrow> (out, ca', Raised e))"
proof (induction xs arbitrary: k ca)
  case Nil
  then show ?case by (simp split: prod.splits)
next
  case (Cons s xs)
  show ?case
    by (cases s)
       (simp_all add: Cons.IH del: exec_with.simps split: prod.splits outcome.splits)
qed

lemma unwind_append:
  "unwind (bs @ cs) e =
     (case unwind bs e of
        (out, left, Normal) \<Rightarrow> (out, left, Normal)
      | (out, left, Raised e') \<Rightarrow>
          (case unwind cs e' of (out', left', r) \<Rightarrow> (out @ out', left @ left', r)))"
proof (induction bs arbitrary: e)
  case Nil
  then show ?case by (simp split: prod.splits)
next
  case (Cons b bs)
  show ?case
    by (simp add: Cons.IH split: prod.splits outcome.splits)
qed

lemma unwind_single:
  "unwind [b] e = (case with_exit b (Raised e) of (out, b', r) \<Rightarrow> (out, [b'], r))"
  by (simp split: prod.splits outcome.splits)


text \<open>
  Running a program whose statement at \<open>hole q k fs\<close> raises a \<^verbatim>\<open>DodonaException\<close> prints
  the records of \<open>descend\<close>, then those of \<open>unwind\<close> on the blocks open there; and when
  no block swallows the exception, nothing more is printed and the exception leaves the
  program. So \<open>unwind\<close> is what a signal does to the blocks around its \<^verbatim>\<open>raise\<close>.
\<close>

lemma exec_reaches_unwind:
  assumes "descend q k fs = Some (out0, bs)"
  shows "\<exists>rest ca' res.
      exec_body q k (plug fs (Raise st rc kw) # ss) ca
        = (out0 @ fst (unwind bs (DodonaExc (DodonaException_init (hole q k fs) st rc kw))) @ rest,
           ca', res)
      \<and> (\<forall>e. snd (snd (unwind bs (DodonaExc (DodonaException_init (hole q k fs) st rc kw))))
               = Raised e \<longrightarrow> rest = [] \<and> ca' = ca \<and> res = Raised e)"
  using assms
proof (induction fs arbitrary: q k ss ca out0 bs)
  case Nil
  then show ?case by simp
next
  case (Cons f fs)
  obtain c pre post where f: "f = (c, pre, post)" by (cases f)
  let ?p = "q @ [k]"
  let ?self = "construct ?p c"
  let ?X = "DodonaExc (DodonaException_init (hole q k (f # fs)) st rc kw)"
  obtain outp ca1 rp where ep0: "exec_body ?p 0 pre (close_args ?self) = (outp, ca1, rp)"
    by (cases "exec_body ?p 0 pre (close_args ?self)") auto
  have rp: "rp = Normal"
    using Cons.prems ep0 by (cases rp) (simp_all add: f)
  have ep: "exec_body ?p 0 pre (close_args ?self) = (outp, ca1, Normal)"
    using ep0 rp by simp
  obtain out0' bs' where d': "descend ?p (length pre) fs = Some (out0', bs')"
    using Cons.prems ep by (cases "descend ?p (length pre) fs") (auto simp: f)
  have out0: "out0 = dunder_enter ?self @ outp @ out0'"
    and bs: "bs = bs' @ [?self\<lparr>close_args := ca1\<rparr>]"
    using Cons.prems ep d' by (simp_all add: f)
  let ?b1 = "?self\<lparr>close_args := ca1\<rparr>"
  have X: "hole q k (f # fs) = hole ?p (length pre) fs" by (simp add: f)
  obtain U' L' R' where u': "unwind bs' ?X = (U', L', R')"
    by (cases "unwind bs' ?X") auto
  from Cons.IH[OF d', of post ca1] obtain rest' ca2 res' where
    eb: "exec_body ?p (length pre) (plug fs (Raise st rc kw) # post) ca1
           = (out0' @ U' @ rest', ca2, res')"
    and stop: "\<forall>e. R' = Raised e \<longrightarrow> rest' = [] \<and> ca2 = ca1 \<and> res' = Raised e"
    unfolding X[symmetric] u' by auto
  have body: "exec_body ?p 0 (pre @ plug fs (Raise st rc kw) # post) (close_args ?self)
      = (outp @ out0' @ U' @ rest', ca2, res')"
    by (simp add: exec_body_append ep eb del: exec_body.simps)
  obtain o' b' r' where we: "with_exit (?self\<lparr>close_args := ca2\<rparr>) res' = (o', b', r')"
    by (cases "with_exit (?self\<lparr>close_args := ca2\<rparr>) res'") auto
  have ew: "exec_with ?p c (pre @ plug fs (Raise st rc kw) # post)
      = (out0 @ U' @ rest' @ o', r')"
    by (simp add: body we out0 Let_def del: exec_body.simps)
  obtain outs cas rs where es: "exec_body q (Suc k) ss ca = (outs, cas, rs)"
    by (cases "exec_body q (Suc k) ss ca") auto
  have top: "exec_body q k (plug (f # fs) (Raise st rc kw) # ss) ca
      = (case r' of
           Normal \<Rightarrow> (out0 @ U' @ rest' @ o' @ outs, cas, rs)
         | Raised e \<Rightarrow> (out0 @ U' @ rest' @ o', ca, Raised e))"
    using ew es by (simp add: f del: exec_with.simps split: outcome.splits)
  show ?case
  proof (cases R')
    case Normal
    have un: "unwind bs ?X = (U', L', Normal)"
      using u' Normal by (simp add: bs unwind_append del: unwind.simps)
    show ?thesis
      unfolding un top by (cases r') auto
  next
    case (Raised e')
    then have r: "rest' = []" "ca2 = ca1" "res' = Raised e'"
      using stop by auto
    have we1: "with_exit ?b1 (Raised e') = (o', b', r')"
      using we r by simp
    have un: "unwind bs ?X = (U' @ o', L' @ [b'], r')"
      using u' Raised we1 by (simp add: bs unwind_append unwind_single del: unwind.simps)
    show ?thesis
      unfolding un top r by (cases r') auto
  qed
qed


text \<open>
  The judge script's nesting, with a \<^verbatim>\<open>Test\<close> whose body raises \<^verbatim>\<open>wrong answer\<close> with a note
  and no \<^verbatim>\<open>recover_at\<close>: the commands printed, with the \<^verbatim>\<open>accepted\<close> field of each record.
\<close>

lemma wrong_answer_run:
  "map (\<lambda>e. (dict_get (payload e) ''command'', dict_get (payload e) ''accepted''))
     (fst (exec_with [] (NewJudgement [])
        [With (NewTab (JStr ''Comparing PNGs'') [])
           [With (NewContext [])
              [With (NewTestCase [] [(''description'', JStr ''submission'')])
                 [With (NewTest (JStr ''test1'') (JStr ''A'') [])
                    [SetAttr ''generated'' (JStr ''B''),
                     Raise [(''enum'', JStr ''wrong answer'')] None
                       [(''description'', JStr ''differs'')]]]]]]))
   = [(Some (JStr ''start-judgement''), None),
      (Some (JStr ''start-tab''), None),
      (Some (JStr ''start-context''), None),
      (Some (JStr ''start-testcase''), None),
      (Some (JStr ''start-test''), None),
      (Some (JStr ''append-message''), None),
      (Some (JStr ''close-test''), Some (JBool False)),
      (Some (JStr ''close-testcase''), Some (JBool False)),
      (Some (JStr ''close-context''), Some (JBool False)),
      (Some (JStr ''close-tab''), None),
      (Some (JStr ''close-judgement''), Some (JBool False))]"
  by (simp add: eval_defs)

section \<open>The claims\<close>

text \<open>
  C1. In the records printed by a \<^verbatim>\<open>with\<close> statement placed at \<open>p\<close>, whatever its body
  (nested \<^verbatim>\<open>with\<close> statements, assignments, raises): the first record is the start record
  of the block at \<open>p\<close> and every record comes from that block or from one inside it;
  every block from which, or from inside which, a record comes has exactly one start
  record, and no block has more than one close record; a close record comes after the
  start record of its block; the start record of a block comes before every other record
  of that block and of the blocks inside it, and the close record of a block comes after
  every other record of that block and of the blocks inside it.
\<close>

theorem well_nested_stream:
  assumes "exec_with p c body = (out, r)"
  shows "hd out = \<lparr>emitter = p, site = At_enter, payload = start_msg (construct p c)\<rparr>
    \<and> (\<forall>e\<in>set out. prefix p (emitter e))
    \<and> (\<forall>e\<in>set out. \<forall>q. prefix p q \<and> prefix q (emitter e) \<longrightarrow>
          length (filter (\<lambda>e'. emitter e' = q \<and> site e' = At_enter) out) = 1)
    \<and> (\<forall>q. length (filter (\<lambda>e'. emitter e' = q \<and> site e' = At_exit) out) \<le> 1)
    \<and> (\<forall>n<length out. site (out ! n) = At_exit \<longrightarrow>
          (\<exists>k<n. emitter (out ! k) = emitter (out ! n) \<and> site (out ! k) = At_enter))
    \<and> (\<forall>k n. k < length out \<and> n < length out \<and> k \<noteq> n \<and> site (out ! k) = At_enter
          \<and> prefix (emitter (out ! k)) (emitter (out ! n)) \<longrightarrow> k < n)
    \<and> (\<forall>k n. k < length out \<and> n < length out \<and> k \<noteq> n \<and> site (out ! n) = At_exit
          \<and> prefix (emitter (out ! n)) (emitter (out ! k)) \<longrightarrow> k < n)"
proof -
  have w: "with_inv p out r"
    using exec_inv(2)[of p c body] assms by (simp del: exec_with.simps)
  then have n: "nested out" and pre: "\<forall>e\<in>set out. prefix p (emitter e)"
    and root: "\<forall>e\<in>set out. \<forall>q. prefix p q \<and> prefix q (emitter e) \<longrightarrow> q \<in> set (starts out)"
    unfolding with_inv_def by blast+
  have ds: "distinct (starts out)" and dc: "distinct (closes out)"
    using n by (simp_all add: nested_def)
  have hd: "hd out = \<lparr>emitter = p, site = At_enter, payload = start_msg (construct p c)\<rparr>"
    using assms by (auto simp: dunder_enter_def print_command_def Let_def split: prod.splits)
  have one: "length (filter (\<lambda>e'. emitter e' = q \<and> site e' = At_enter) out) = 1"
    if "q \<in> set (starts out)" for q
  proof -
    have "length (filter (\<lambda>x. x = q) (starts out)) = 1"
      using ds that by (rule count_one)
    then show ?thesis by (simp add: starts_count)
  qed
  have le: "length (filter (\<lambda>e'. emitter e' = q \<and> site e' = At_exit) out) \<le> 1" for q
  proof -
    have "length (filter (\<lambda>x. x = q) (closes out)) \<le> 1"
      using dc by (rule count_le_one)
    then show ?thesis by (simp add: closes_count)
  qed
  have before: "\<exists>k<n. emitter (out ! k) = emitter (out ! n) \<and> site (out ! k) = At_enter"
    if nl: "n < length out" and ex: "site (out ! n) = At_exit" for n
  proof -
    have "out ! n \<in> set out" using nl by simp
    then have "emitter (out ! n) \<in> set (starts out)"
      using root pre by blast
    then obtain e where e: "e \<in> set out" "emitter e = emitter (out ! n)" "site e = At_enter"
      unfolding in_starts by blast
    then obtain k where k: "k < length out" "out ! k = e"
      by (auto simp: in_set_conv_nth)
    have "k \<noteq> n" using k e(3) ex by auto
    from nested_order(1)[OF n k(1) nl this] k e have "k < n" by simp
    then show ?thesis using k e by auto
  qed
  show ?thesis
    using hd pre root one le before nested_order[OF n] by (intro conjI) blast+
qed

theorem well_nested_stream_witness:
  "hd (fst (exec_with [] (NewJudgement [])
        [With (NewTab (JStr ''t'') [])
           [With (NewTest (JStr ''d'') (JStr ''A'') [])
              [SetAttr ''generated'' (JStr ''B''),
               Raise [(''enum'', JStr ''wrong'')] (Some Tab) [(''description'', JStr ''no'')]],
            With (NewMessage [JStr ''skipped''] []) []],
         With (NewMessage [JStr ''done''] []) []]))
     = \<lparr>emitter = [], site = At_enter, payload = start_msg (construct [] (NewJudgement []))\<rparr>
   \<and> length (filter (\<lambda>e'. emitter e' = [0, 0] \<and> site e' = At_exit)
       (fst (exec_with [] (NewJudgement [])
        [With (NewTab (JStr ''t'') [])
           [With (NewTest (JStr ''d'') (JStr ''A'') [])
              [SetAttr ''generated'' (JStr ''B''),
               Raise [(''enum'', JStr ''wrong'')] (Some Tab) [(''description'', JStr ''no'')]],
            With (NewMessage [JStr ''skipped''] []) []],
         With (NewMessage [JStr ''done''] []) []]))) \<le> 1
   \<and> map emitter (fst (exec_with [] (NewJudgement [])
        [With (NewTab (JStr ''t'') [])
           [With (NewTest (JStr ''d'') (JStr ''A'') [])
              [SetAttr ''generated'' (JStr ''B''),
               Raise [(''enum'', JStr ''wrong'')] (Some Tab) [(''description'', JStr ''no'')]],
            With (NewMessage [JStr ''skipped''] []) []],
         With (NewMessage [JStr ''done''] []) []]))
     = [[], [0], [0, 0], [0, 0, 1], [0, 0], [0], [0], [1], []]"
proof -
  let ?body = "[With (NewTab (JStr ''t'') [])
           [With (NewTest (JStr ''d'') (JStr ''A'') [])
              [SetAttr ''generated'' (JStr ''B''),
               Raise [(''enum'', JStr ''wrong'')] (Some Tab) [(''description'', JStr ''no'')]],
            With (NewMessage [JStr ''skipped''] []) []],
         With (NewMessage [JStr ''done''] []) []]"
  let ?run = "exec_with [] (NewJudgement []) ?body"
  have run: "?run = (fst ?run, snd ?run)"
    by (simp del: exec_with.simps)
  have ev: "map emitter (fst ?run) = [[], [0], [0, 0], [0, 0, 1], [0, 0], [0], [0], [1], []]"
    by (simp add: eval_defs)
  from well_nested_stream[OF run] ev show ?thesis
    by (simp del: exec_with.simps)
qed

text \<open>
  C2, as the code has it. Leaving a block prints what the failure handler prints (nothing
  when the body raised no \<^verbatim>\<open>DodonaException\<close>) and then, for every class but \<^verbatim>\<open>Message\<close> and
  \<^verbatim>\<open>Annotation\<close>, the one record \<^verbatim>\<open>{"command": "close-<name>", **close_args}\<close>; for \<^verbatim>\<open>Message\<close>
  and \<^verbatim>\<open>Annotation\<close> no close record follows. This holds when the body ended without an
  exception, with another exception, or with a \<^verbatim>\<open>DodonaException\<close> whose status has an
  \<^verbatim>\<open>enum\<close> entry (which only the classes with an \<^verbatim>\<open>accepted\<close> field read).
\<close>

theorem exit_prints_close:
  assumes "dunder_exit self exc_val = (out, self', exc', r)"
    and "\<forall>x. exc_val = Some (DodonaExc x) \<and> issubclass (klass self) DodonaCommandWithAccepted
           \<longrightarrow> dict_get (status x) ''enum'' \<noteq> None"
  shows "out = (case exc_val of
                  Some (DodonaExc x) \<Rightarrow> fst (handle_dodona_exception self x)
                | _ \<Rightarrow> [])
               @ (if klass self = Message \<or> klass self = Annotation then []
                  else [\<lparr>emitter = ident self, site = At_exit,
                         payload = dict_update [(''command'', JStr (''close-'' @ name self))]
                                     (close_args self')\<rparr>])"
proof (cases exc_val)
  case None
  then show ?thesis
    using assms(1) by (auto simp: dunder_exit_def print_command_def close_msg_def)
next
  case (Some ex)
  show ?thesis
  proof (cases ex)
    case (OtherExc n)
    then show ?thesis
      using assms(1) Some by (auto simp: dunder_exit_def print_command_def close_msg_def)
  next
    case (DodonaExc x)
    obtain h b' x' res where H: "handle_dodona_exception self x = (h, b', x', res)"
      by (cases "handle_dodona_exception self x") auto
    have b': "b' = after_handler self x"
      using H by (simp add: after_handler_def)
    have "\<exists>handled. res = Inr handled"
    proof (cases "issubclass (klass self) DodonaCommandWithAccepted")
      case True
      then obtain v where v: "dict_get (status x) ''enum'' = Some v"
        using assms(2) Some DodonaExc by auto
      show ?thesis using H by (auto simp: handle_unfold[OF v])
    next
      case False
      show ?thesis using H by (auto simp: handle_plain[OF False])
    qed
    then obtain handled where res: "res = Inr handled" ..
    have "out = h @ print_command (ident b') At_exit (close_msg b')" and "self' = b'"
      using assms(1) Some DodonaExc H res by (auto simp: dunder_exit_def)
    then show ?thesis
      using Some DodonaExc H
      by (simp add: b' print_command_def close_msg_def name_def)
  qed
qed

theorem exit_prints_close_witness:
  "issubclass (klass (DodonaCommand_init [0] Context [])) DodonaCommandWithAccepted
   \<and> dict_get (status (DodonaException_init [0, 0] [(''enum'', JStr ''wrong'')] None []))
        ''enum'' = Some (JStr ''wrong'')
   \<and> fst (dunder_exit (DodonaCommand_init [0] Context [])
        (Some (DodonaExc (DodonaException_init [0, 0] [(''enum'', JStr ''wrong'')] None []))))
     = [\<lparr>emitter = [0], site = At_exit,
         payload = [(''command'', JStr ''close-context''), (''accepted'', JBool False)]\<rparr>]"
proof -
  let ?b = "DodonaCommand_init [0] Context []"
  let ?e = "Some (DodonaExc (DodonaException_init [0, 0] [(''enum'', JStr ''wrong'')] None []))"
  have h: "\<forall>x. ?e = Some (DodonaExc x) \<and> issubclass (klass ?b) DodonaCommandWithAccepted
        \<longrightarrow> dict_get (status x) ''enum'' \<noteq> None"
    by (auto simp: DodonaException_init_def dict_get_def)
  have d: "dunder_exit ?b ?e = (fst (dunder_exit ?b ?e), fst (snd (dunder_exit ?b ?e)),
      fst (snd (snd (dunder_exit ?b ?e))), snd (snd (snd (dunder_exit ?b ?e))))"
    by simp
  from exit_prints_close[OF d h] h show ?thesis
    by (simp add: eval_defs)
qed

text \<open>
  C2 as stated fails for the two inline classes: leaving a \<^verbatim>\<open>Message\<close> block whose body
  raised a \<^verbatim>\<open>DodonaException\<close> that carries a note prints that note.
\<close>

theorem message_exit_prints_note:
  "fst (dunder_exit (Message_init [0] [JStr ''outer note''] [])
     (Some (DodonaExc (DodonaException_init [0, 0] [(''enum'', JStr ''runtime error'')] None
        [(''description'', JStr ''boom'')]))))
   = [\<lparr>emitter = [0, 0], site = At_enter,
       payload = [(''command'', JStr ''append-message''),
                  (''message'', JObj [(''description'', JStr ''boom'')])]\<rparr>]"
  by (simp add: eval_defs)

text \<open>
  C3. A signal whose status has an \<^verbatim>\<open>enum\<close> entry, raised with no \<^verbatim>\<open>recover_at\<close> inside the blocks \<open>bs\<close> (innermost first, none
  of them a \<^verbatim>\<open>Judgement\<close>), themselves inside a \<^verbatim>\<open>Judgement\<close> block, leaves every block of
  \<open>bs\<close> and is swallowed by the \<^verbatim>\<open>Judgement\<close>: the blocks around it are not left. No record
  printed on the way comes from the \<^verbatim>\<open>escalate-status\<close> call, and the last record is the
  close record of the \<^verbatim>\<open>Judgement\<close>, whose \<^verbatim>\<open>status\<close> is the signal's status.
\<close>

theorem default_recover_at_root:
  assumes "x = DodonaException_init q st None kwargs"
    and "dict_get st ''enum'' = Some v"
    and "\<forall>b\<in>set bs. klass b \<noteq> Judgement"
    and "klass root = Judgement"
    and "unwind (bs @ root # outer) (DodonaExc x) = (out, left, r)"
  shows "r = Normal \<and> length left = Suc (length bs)
       \<and> (\<forall>e\<in>set out. site e \<noteq> At_escalate)
       \<and> last out = \<lparr>emitter = ident root, site = At_exit,
            payload = dict_update [(''command'', JStr ''close-judgement'')] (close_args (last left))\<rparr>
       \<and> dict_get (payload (last out)) ''status'' = Some (JObj st)"
proof -
  have e: "dict_get (status x) ''enum'' = Some v" using assms(1,2) by simp
  have nm: "\<forall>b\<in>set bs. \<not> issubclass (klass b) (recover_at x)"
    using assms(1,3) by (simp add: issubclass_Judgement)
  have m: "issubclass (klass root) (recover_at x)"
    using assms(1,4) by (simp add: issubclass_Judgement)
  have esc: "escalate_events root x = []"
    using assms(1) by (simp add: escalate_events_def)
  have cl: "close_events (after_handler root x) =
      [\<lparr>emitter = ident root, site = At_exit,
        payload = dict_update [(''command'', JStr ''close-judgement'')]
                    (close_args (after_handler root x))\<rparr>]"
    using assms(4) by (simp add: close_events_payload name_def lower_def lower_char_def)
  have st: "close_args (after_handler root x) =
      dict_set ''accepted'' (JBool (v = JStr ''correct'' \<or> v = JStr ''correct answer''))
        (dict_set ''status'' (JObj st) (close_args root))"
    using after_handler_close_args[OF e, of root] assms(1,4) by (simp add: issubclass_def)
  from unwind_caught[OF e nm m, of outer] assms(5)
  have out: "out = note_events x @ concat (map (\<lambda>b. close_events (after_handler b x)) bs)
       @ close_events (after_handler root x)"
    and left: "left = map (\<lambda>b. after_handler b x) (bs @ [root])" and r: "r = Normal"
    by (simp_all add: esc)
  have sites: "\<forall>e\<in>set out. site e \<noteq> At_escalate"
    unfolding out using assms(1)
    by (auto simp: note_events_init dest: close_events_site split: if_splits)
  have lo: "last out = \<lparr>emitter = ident root, site = At_exit,
        payload = dict_update [(''command'', JStr ''close-judgement'')]
                    (close_args (after_handler root x))\<rparr>"
    unfolding out cl by simp
  have ll: "last left = after_handler root x"
    unfolding left by simp
  show ?thesis
    using r sites
    by (simp add: lo ll left st payload_lookup_set2)
qed

theorem default_recover_at_root_witness:
  "dict_get [(''enum'', JStr ''wrong answer'')] ''enum'' = Some (JStr ''wrong answer'')
   \<and> klass (Test_init [0, 0] (JStr ''d'') (JStr ''A'') []) \<noteq> Judgement
   \<and> klass (TestCase_init [0] [] []) \<noteq> Judgement
   \<and> klass (DodonaCommand_init [] Judgement []) = Judgement
   \<and> snd (snd (unwind
        ([Test_init [0, 0] (JStr ''d'') (JStr ''A'') [], TestCase_init [0] [] []]
          @ DodonaCommand_init [] Judgement [] # [])
        (DodonaExc (DodonaException_init [0, 0, 0] [(''enum'', JStr ''wrong answer'')] None []))))
      = Normal
   \<and> dict_get (payload (last (fst (unwind
        ([Test_init [0, 0] (JStr ''d'') (JStr ''A'') [], TestCase_init [0] [] []]
          @ DodonaCommand_init [] Judgement [] # [])
        (DodonaExc (DodonaException_init [0, 0, 0] [(''enum'', JStr ''wrong answer'')] None []))))))
        ''status'' = Some (JObj [(''enum'', JStr ''wrong answer'')])"
proof -
  let ?bs = "[Test_init [0, 0] (JStr ''d'') (JStr ''A'') [], TestCase_init [0] [] []]"
  let ?root = "DodonaCommand_init [] Judgement []"
  let ?x = "DodonaException_init [0, 0, 0] [(''enum'', JStr ''wrong answer'')] None []"
  let ?u = "unwind (?bs @ ?root # []) (DodonaExc ?x)"
  have h2: "dict_get [(''enum'', JStr ''wrong answer'')] ''enum'' = Some (JStr ''wrong answer'')"
    by (simp add: dict_get_def)
  have h3: "\<forall>b\<in>set ?bs. klass b \<noteq> Judgement"
    by (simp add: Test_init_def TestCase_init_def DodonaCommand_init_def)
  have h4: "klass ?root = Judgement"
    by (simp add: DodonaCommand_init_def)
  have u: "?u = (fst ?u, fst (snd ?u), snd (snd ?u))"
    by simp
  from default_recover_at_root[OF refl h2 h3 h4 u] h2 h3 h4 show ?thesis
    by (simp add: eval_defs)
qed

text \<open>
  C4, as the code has it. When a signal whose status has an \<^verbatim>\<open>enum\<close> entry, raised with an explicit \<^verbatim>\<open>recover_at\<close> class \<open>c\<close>
  leaves the blocks \<open>bs\<close>, none an instance of \<open>c\<close>, and reaches the block \<open>m\<close> that is one,
  then \<open>m\<close> swallows it and prints one \<^verbatim>\<open>escalate-status\<close> record carrying the signal's
  status, just before its own close record; no record printed before that is an
  \<^verbatim>\<open>escalate-status\<close> record, so the blocks of \<open>bs\<close> print none.
\<close>

theorem escalate_only_at_matching_block:
  assumes "x = DodonaException_init q st (Some c) kwargs"
    and "dict_get st ''enum'' = Some v"
    and "\<forall>b\<in>set bs. \<not> issubclass (klass b) c"
    and "issubclass (klass m) c"
    and "unwind (bs @ m # outer) (DodonaExc x) = (out, left, r)"
  shows "r = Normal
       \<and> (\<exists>pre. out = pre @ \<lparr>emitter = ident m, site = At_escalate,
                    payload = [(''command'', JStr ''escalate-status''), (''status'', JObj st)]\<rparr>
                  # close_events (last left)
              \<and> (\<forall>e\<in>set pre. site e \<noteq> At_escalate))
       \<and> escalated_by m out
       \<and> (\<forall>b\<in>set bs. ident b \<noteq> ident m \<longrightarrow> \<not> escalated_by b out)"
proof -
  have e: "dict_get (status x) ''enum'' = Some v" using assms(1,2) by simp
  have nm: "\<forall>b\<in>set bs. \<not> issubclass (klass b) (recover_at x)"
    using assms(1,3) by simp
  have m: "issubclass (klass m) (recover_at x)"
    using assms(1,4) by simp
  have esc: "escalate_events m x =
      [\<lparr>emitter = ident m, site = At_escalate,
        payload = [(''command'', JStr ''escalate-status''), (''status'', JObj st)]\<rparr>]"
    using assms(1,4) by (simp add: escalate_events_def)
  define pre where "pre = note_events x @ concat (map (\<lambda>b. close_events (after_handler b x)) bs)"
  from unwind_caught[OF e nm m, of outer] assms(5)
  have out: "out = pre @ escalate_events m x @ close_events (after_handler m x)"
    and left: "left = map (\<lambda>b. after_handler b x) (bs @ [m])" and r: "r = Normal"
    by (simp_all add: pre_def)
  have ll: "last left = after_handler m x" unfolding left by simp
  have pre: "\<forall>e\<in>set pre. site e \<noteq> At_escalate"
    unfolding pre_def assms(1)
    by (auto simp: note_events_init dest: close_events_site split: if_splits)
  have 1: "out = pre @ \<lparr>emitter = ident m, site = At_escalate,
                    payload = [(''command'', JStr ''escalate-status''), (''status'', JObj st)]\<rparr>
                  # close_events (last left)"
    unfolding out esc ll by simp
  have 2: "escalated_by m out"
    unfolding 1 by (simp add: escalated_by_def)
  have 3: "\<not> escalated_by b out" if "ident b \<noteq> ident m" for b
    unfolding 1 using pre that
    by (auto simp: escalated_by_exit dest: close_events_site)
  show ?thesis
    using r 1 pre 2 3 by blast
qed

theorem escalate_only_at_matching_block_witness:
  "dict_get [(''enum'', JStr ''wrong answer'')] ''enum'' = Some (JStr ''wrong answer'')
   \<and> \<not> issubclass (klass (Test_init [0, 0] (JStr ''d'') (JStr ''A'') [])) TestCase
   \<and> issubclass (klass (TestCase_init [0] [] [])) TestCase
   \<and> escalated_by (TestCase_init [0] [] [])
        (fst (unwind ([Test_init [0, 0] (JStr ''d'') (JStr ''A'') []] @ TestCase_init [0] [] [] # [])
          (DodonaExc (DodonaException_init [0, 0, 0] [(''enum'', JStr ''wrong answer'')]
             (Some TestCase) []))))"
proof -
  let ?bs = "[Test_init [0, 0] (JStr ''d'') (JStr ''A'') []]"
  let ?m = "TestCase_init [0] [] []"
  let ?x = "DodonaException_init [0, 0, 0] [(''enum'', JStr ''wrong answer'')] (Some TestCase) []"
  let ?u = "unwind (?bs @ ?m # []) (DodonaExc ?x)"
  have h2: "dict_get [(''enum'', JStr ''wrong answer'')] ''enum'' = Some (JStr ''wrong answer'')"
    by (simp add: dict_get_def)
  have h3: "\<forall>b\<in>set ?bs. \<not> issubclass (klass b) TestCase"
    by (simp add: Test_init_def DodonaCommand_init_def issubclass_def)
  have h4: "issubclass (klass ?m) TestCase"
    by (simp add: TestCase_init_def DodonaCommand_init_def issubclass_def)
  have u: "?u = (fst ?u, fst (snd ?u), snd (snd ?u))"
    by simp
  from escalate_only_at_matching_block[OF refl h2 h3 h4 u] h2 h3 h4 show ?thesis
    by (simp add: eval_defs)
qed

text \<open>
  C4 as stated fails: a \<^verbatim>\<open>Test\<close> block between the \<^verbatim>\<open>raise\<close> and the \<^verbatim>\<open>TestCase\<close> named as
  \<^verbatim>\<open>recover_at\<close> prints no \<^verbatim>\<open>escalate-status\<close> record.
\<close>

theorem passed_block_does_not_escalate:
  "\<not> escalated_by (Test_init [0, 0] (JStr ''d'') (JStr ''A'') [])
     (fst (unwind [Test_init [0, 0] (JStr ''d'') (JStr ''A'') [], TestCase_init [0] [JStr ''c''] []]
        (DodonaExc (DodonaException_init [0, 0, 0] [(''enum'', JStr ''wrong answer'')]
            (Some TestCase) []))))"
  by (simp add: eval_defs)

text \<open>
  C5. When a signal whose status has an \<^verbatim>\<open>enum\<close> entry, raised with an explicit \<^verbatim>\<open>recover_at\<close> class \<open>c\<close> leaves the blocks \<open>bs\<close>,
  none an instance of \<open>c\<close>, and reaches the block \<open>m\<close> that is one, exactly one record
  comes from the \<^verbatim>\<open>escalate-status\<close> call, printed by \<open>m\<close>; and every block of \<open>bs\<close> and \<open>m\<close>
  itself that has an \<^verbatim>\<open>accepted\<close> field has it set in its close fields and in the close
  record it prints, and likewise \<^verbatim>\<open>status\<close> for every block that has a \<^verbatim>\<open>status\<close> field.
\<close>

theorem explicit_recover_escalates_once:
  assumes "x = DodonaException_init q st (Some c) kwargs"
    and "dict_get st ''enum'' = Some v"
    and "\<forall>b\<in>set bs. \<not> issubclass (klass b) c"
    and "issubclass (klass m) c"
    and "unwind (bs @ m # outer) (DodonaExc x) = (out, left, r)"
  shows "filter (\<lambda>e. site e = At_escalate) out =
           [\<lparr>emitter = ident m, site = At_escalate,
             payload = [(''command'', JStr ''escalate-status''), (''status'', JObj st)]\<rparr>]
       \<and> length left = Suc (length bs)
       \<and> (\<forall>i \<le> length bs.
            (issubclass (klass ((bs @ [m]) ! i)) DodonaCommandWithAccepted \<longrightarrow>
               dict_get (close_args (left ! i)) ''accepted''
                 = Some (JBool (v = JStr ''correct'' \<or> v = JStr ''correct answer''))
               \<and> (\<exists>e\<in>set out. emitter e = ident ((bs @ [m]) ! i) \<and> site e = At_exit
                     \<and> payload e = dict_update
                          [(''command'', JStr (''close-'' @ name ((bs @ [m]) ! i)))]
                          (close_args (left ! i))
                     \<and> dict_get (payload e) ''accepted''
                          = Some (JBool (v = JStr ''correct'' \<or> v = JStr ''correct answer''))))
          \<and> (issubclass (klass ((bs @ [m]) ! i)) DodonaCommandWithStatus \<longrightarrow>
               dict_get (close_args (left ! i)) ''status'' = Some (JObj st)
               \<and> (\<exists>e\<in>set out. emitter e = ident ((bs @ [m]) ! i) \<and> site e = At_exit
                     \<and> dict_get (payload e) ''status'' = Some (JObj st))))"
proof -
  have e: "dict_get (status x) ''enum'' = Some v" using assms(1,2) by simp
  have nm: "\<forall>b\<in>set bs. \<not> issubclass (klass b) (recover_at x)"
    using assms(1,3) by simp
  have m: "issubclass (klass m) (recover_at x)"
    using assms(1,4) by simp
  have esc: "escalate_events m x =
      [\<lparr>emitter = ident m, site = At_escalate,
        payload = [(''command'', JStr ''escalate-status''), (''status'', JObj st)]\<rparr>]"
    using assms(1,4) by (simp add: escalate_events_def)
  from unwind_caught[OF e nm m, of outer] assms(5)
  have out: "out = note_events x @ concat (map (\<lambda>b. close_events (after_handler b x)) bs)
       @ escalate_events m x @ close_events (after_handler m x)"
    and left: "left = map (\<lambda>b. after_handler b x) (bs @ [m])"
    by simp_all
  have sx: "status x = st" using assms(1) by simp
  have fe: "filter (\<lambda>e. site e = At_escalate) (escalate_events m x) = escalate_events m x"
    by (simp add: esc)
  have fn: "filter (\<lambda>e. site e = At_escalate) (note_events x) = []"
    unfolding assms(1) by (simp add: note_events_init)
  have one: "filter (\<lambda>e. site e = At_escalate) out = escalate_events m x"
    unfolding out by (simp add: fe fn)
  have closes: "set (close_events (after_handler b x)) \<subseteq> set out" if "b \<in> set (bs @ [m])" for b
    using that unfolding out by auto
  have each: "(issubclass (klass b) DodonaCommandWithAccepted \<longrightarrow>
               dict_get (close_args (after_handler b x)) ''accepted''
                 = Some (JBool (v = JStr ''correct'' \<or> v = JStr ''correct answer''))
               \<and> (\<exists>e\<in>set out. emitter e = ident b \<and> site e = At_exit
                     \<and> payload e = dict_update [(''command'', JStr (''close-'' @ name b))]
                          (close_args (after_handler b x))
                     \<and> dict_get (payload e) ''accepted''
                          = Some (JBool (v = JStr ''correct'' \<or> v = JStr ''correct answer''))))
          \<and> (issubclass (klass b) DodonaCommandWithStatus \<longrightarrow>
               dict_get (close_args (after_handler b x)) ''status'' = Some (JObj st)
               \<and> (\<exists>e\<in>set out. emitter e = ident b \<and> site e = At_exit
                     \<and> dict_get (payload e) ''status'' = Some (JObj st)))"
    if b: "b \<in> set (bs @ [m])" for b
  proof (intro conjI impI)
    assume a: "issubclass (klass b) DodonaCommandWithAccepted"
    show "dict_get (close_args (after_handler b x)) ''accepted''
                 = Some (JBool (v = JStr ''correct'' \<or> v = JStr ''correct answer''))"
      by (rule close_args_accepted[OF e a])
    have ce: "close_events (after_handler b x) = [\<lparr>emitter = ident b, site = At_exit,
        payload = dict_update [(''command'', JStr (''close-'' @ name b))]
                    (close_args (after_handler b x))\<rparr>]"
      using accepted_not_inline[OF a] by (simp add: close_events_payload name_def)
    show "\<exists>e\<in>set out. emitter e = ident b \<and> site e = At_exit
                     \<and> payload e = dict_update [(''command'', JStr (''close-'' @ name b))]
                          (close_args (after_handler b x))
                     \<and> dict_get (payload e) ''accepted''
                          = Some (JBool (v = JStr ''correct'' \<or> v = JStr ''correct answer''))"
    proof (rule bexI)
      show "\<lparr>emitter = ident b, site = At_exit,
          payload = dict_update [(''command'', JStr (''close-'' @ name b))]
                      (close_args (after_handler b x))\<rparr> \<in> set out"
        using closes[OF b] ce by simp
    qed (simp add: payload_lookup_accepted[OF e a])
  next
    assume s: "issubclass (klass b) DodonaCommandWithStatus"
    have a: "issubclass (klass b) DodonaCommandWithAccepted"
      using s by (rule issubclass_status_accepted)
    show "dict_get (close_args (after_handler b x)) ''status'' = Some (JObj st)"
      using close_args_status[OF e s] sx by simp
    have ce: "close_events (after_handler b x) = [\<lparr>emitter = ident b, site = At_exit,
        payload = dict_update [(''command'', JStr (''close-'' @ name b))]
                    (close_args (after_handler b x))\<rparr>]"
      using accepted_not_inline[OF a] by (simp add: close_events_payload name_def)
    show "\<exists>e\<in>set out. emitter e = ident b \<and> site e = At_exit
                     \<and> dict_get (payload e) ''status'' = Some (JObj st)"
    proof (rule bexI)
      show "\<lparr>emitter = ident b, site = At_exit,
          payload = dict_update [(''command'', JStr (''close-'' @ name b))]
                      (close_args (after_handler b x))\<rparr> \<in> set out"
        using closes[OF b] ce by simp
    qed (simp add: payload_lookup_status[OF e s] sx)
  qed
  have nth: "left ! i = after_handler ((bs @ [m]) ! i) x \<and> (bs @ [m]) ! i \<in> set (bs @ [m])"
    if "i \<le> length bs" for i
  proof -
    have "i < length (bs @ [m])" using that by simp
    then show ?thesis unfolding left by (simp only: nth_map nth_mem simp_thms)
  qed
  show ?thesis
  proof (intro conjI allI impI)
    show "filter (\<lambda>e. site e = At_escalate) out =
           [\<lparr>emitter = ident m, site = At_escalate,
             payload = [(''command'', JStr ''escalate-status''), (''status'', JObj st)]\<rparr>]"
      using one esc by simp
    show "length left = Suc (length bs)" unfolding left by simp
  qed (use nth each in \<open>simp_all only:\<close>)
qed

theorem explicit_recover_escalates_once_witness:
  "dict_get [(''enum'', JStr ''wrong answer'')] ''enum'' = Some (JStr ''wrong answer'')
   \<and> \<not> issubclass (klass (Test_init [0, 0] (JStr ''d'') (JStr ''A'') [])) TestCase
   \<and> issubclass (klass (TestCase_init [0] [] [])) TestCase
   \<and> length (filter (\<lambda>e. site e = At_escalate)
        (fst (unwind ([Test_init [0, 0] (JStr ''d'') (JStr ''A'') []] @ TestCase_init [0] [] [] # [])
          (DodonaExc (DodonaException_init [0, 0, 0] [(''enum'', JStr ''wrong answer'')]
             (Some TestCase) []))))) = 1"
proof -
  let ?bs = "[Test_init [0, 0] (JStr ''d'') (JStr ''A'') []]"
  let ?m = "TestCase_init [0] [] []"
  let ?x = "DodonaException_init [0, 0, 0] [(''enum'', JStr ''wrong answer'')] (Some TestCase) []"
  let ?u = "unwind (?bs @ ?m # []) (DodonaExc ?x)"
  have h2: "dict_get [(''enum'', JStr ''wrong answer'')] ''enum'' = Some (JStr ''wrong answer'')"
    by (simp add: dict_get_def)
  have h3: "\<forall>b\<in>set ?bs. \<not> issubclass (klass b) TestCase"
    by (simp add: Test_init_def DodonaCommand_init_def issubclass_def)
  have h4: "issubclass (klass ?m) TestCase"
    by (simp add: TestCase_init_def DodonaCommand_init_def issubclass_def)
  have u: "?u = (fst ?u, fst (snd ?u), snd (snd ?u))"
    by simp
  from explicit_recover_escalates_once[OF refl h2 h3 h4 u] h2 h3 h4 show ?thesis
    by (simp add: eval_defs)
qed

text \<open>
  C6. When a block of a class with an \<^verbatim>\<open>accepted\<close> field handles a failure signal whose
  status is the member \<open>e\<close> of the enumeration, the handler does not raise and leaves
  \<^verbatim>\<open>accepted\<close> in the block's close fields set to true if \<open>e\<close> is \<^verbatim>\<open>CORRECT\<close> or
  \<^verbatim>\<open>CORRECT_ANSWER\<close>, and to false for every other member.
\<close>

theorem accepted_iff_correct:
  assumes "issubclass (klass self) DodonaCommandWithAccepted"
    and "dict_get (status x) ''enum'' = Some (JStr (ErrorType_value e))"
    and "handle_dodona_exception self x = (out, self', x', r)"
  shows "dict_get (close_args self') ''accepted'' = Some (JBool (e = CORRECT \<or> e = CORRECT_ANSWER))
         \<and> r = Inr (issubclass (klass self) (recover_at x))"
proof -
  have "self' = after_handler self x"
    using assms(3) by (simp add: after_handler_def)
  moreover have "r = Inr (issubclass (klass self) (recover_at x))"
    using assms(3) handle_unfold[OF assms(2), of self] by simp
  ultimately show ?thesis
    using assms(1) ErrorType_correct[of e]
    by (simp add: after_handler_close_args[OF assms(2)] dict_get_set)
qed

theorem accepted_iff_correct_witness:
  "issubclass (klass (DodonaCommand_init [0] Context [])) DodonaCommandWithAccepted
   \<and> dict_get (status (DodonaException_init [0, 0] [(''enum'', JStr ''wrong answer'')] None []))
        ''enum'' = Some (JStr (ErrorType_value WRONG_ANSWER))
   \<and> dict_get (close_args (fst (snd (handle_dodona_exception (DodonaCommand_init [0] Context [])
        (DodonaException_init [0, 0] [(''enum'', JStr ''wrong answer'')] None [])))))
        ''accepted'' = Some (JBool False)"
proof -
  let ?b = "DodonaCommand_init [0] Context []"
  let ?x = "DodonaException_init [0, 0] [(''enum'', JStr ''wrong answer'')] None []"
  have h1: "issubclass (klass ?b) DodonaCommandWithAccepted"
    by (simp add: DodonaCommand_init_def issubclass_def)
  have h2: "dict_get (status ?x) ''enum'' = Some (JStr (ErrorType_value WRONG_ANSWER))"
    by (simp add: DodonaException_init_def dict_get_def)
  obtain out b' x' r where h3: "handle_dodona_exception ?b ?x = (out, b', x', r)"
    by (cases "handle_dodona_exception ?b ?x") auto
  from accepted_iff_correct[OF h1 h2 h3] h1 h2 h3 show ?thesis by simp
qed

text \<open>
  C7. A signal raised with keyword arguments carries a note. When it (its status having
  an \<^verbatim>\<open>enum\<close> entry) leaves the innermost
  open block \<open>b\<close> (and then the blocks around it, until one swallows it), the first record
  printed is the note's \<^verbatim>\<open>append-message\<close> record, printed while \<open>b\<close> is left and before the
  close record of \<open>b\<close>; no later record is a start record, so the note is printed once;
  and the signal that goes on has no note.
\<close>

theorem note_emitted_once:
  assumes "x = DodonaException_init q st recover kwargs"
    and "kwargs \<noteq> []"
    and "dict_get st ''enum'' = Some v"
    and "unwind (b # outer) (DodonaExc x) = (out, left, r)"
  shows "(\<exists>rest. out = \<lparr>emitter = q, site = At_enter,
                    payload = [(''command'', JStr ''append-message''),
                               (''message'', JObj kwargs)]\<rparr> # rest
              \<and> (\<forall>e\<in>set rest. site e \<noteq> At_enter))
       \<and> fst (with_exit b (Raised (DodonaExc x))) =
           \<lparr>emitter = q, site = At_enter,
             payload = [(''command'', JStr ''append-message''), (''message'', JObj kwargs)]\<rparr>
           # escalate_events b x @ close_events (after_handler b x)
       \<and> (\<forall>y. r = Raised y \<longrightarrow> y = DodonaExc (x\<lparr>message := None\<rparr>))"
proof -
  have e: "dict_get (status x) ''enum'' = Some v" using assms(1,3) by simp
  have e': "dict_get (status (x\<lparr>message := None\<rparr>)) ''enum'' = Some v" using e by simp
  have n: "note_events x = [\<lparr>emitter = q, site = At_enter,
             payload = [(''command'', JStr ''append-message''), (''message'', JObj kwargs)]\<rparr>]"
    unfolding assms(1) using assms(2) by (simp add: note_events_init)
  have w: "with_exit b (Raised (DodonaExc x)) =
    (note_events x @ escalate_events b x @ close_events (after_handler b x),
     after_handler b x,
     if issubclass (klass b) (recover_at x) then Normal
     else Raised (DodonaExc (x\<lparr>message := None\<rparr>)))"
    by (rule with_exit_Dodona[OF e])
  note u = unwind_sites[OF e', of outer, simplified]
  show ?thesis
  proof (cases "issubclass (klass b) (recover_at x)")
    case True
    then have "out = note_events x @ escalate_events b x @ close_events (after_handler b x)"
      and "r = Normal"
      using assms(4) by (simp_all add: w)
    then show ?thesis
      using n w by (auto dest: close_events_site escalate_events_site)
  next
    case False
    obtain out' left' r' where
      u': "unwind outer (DodonaExc (x\<lparr>message := None\<rparr>)) = (out', left', r')"
      by (cases "unwind outer (DodonaExc (x\<lparr>message := None\<rparr>))") auto
    have "out = note_events x @ escalate_events b x @ close_events (after_handler b x) @ out'"
      and "r = r'"
      using assms(4) False by (simp_all add: w u')
    then show ?thesis
      using n w u u' by (auto dest: close_events_site escalate_events_site)
  qed
qed

theorem note_emitted_once_witness:
  "[(''description'', JStr ''boom'')] \<noteq> []
   \<and> dict_get [(''enum'', JStr ''runtime error'')] ''enum'' = Some (JStr ''runtime error'')
   \<and> hd (fst (unwind (TestCase_init [0] [] [] # [DodonaCommand_init [] Judgement []])
        (DodonaExc (DodonaException_init [0, 0] [(''enum'', JStr ''runtime error'')] None
           [(''description'', JStr ''boom'')]))))
      = \<lparr>emitter = [0, 0], site = At_enter,
          payload = [(''command'', JStr ''append-message''),
                     (''message'', JObj [(''description'', JStr ''boom'')])]\<rparr>"
proof -
  let ?b = "TestCase_init [0] [] []"
  let ?outer = "[DodonaCommand_init [] Judgement []]"
  let ?x = "DodonaException_init [0, 0] [(''enum'', JStr ''runtime error'')] None
              [(''description'', JStr ''boom'')]"
  let ?u = "unwind (?b # ?outer) (DodonaExc ?x)"
  have h2: "[(''description'', JStr ''boom'')] \<noteq> []"
    by simp
  have h3: "dict_get [(''enum'', JStr ''runtime error'')] ''enum'' = Some (JStr ''runtime error'')"
    by (simp add: dict_get_def)
  have u: "?u = (fst ?u, fst (snd ?u), snd (snd ?u))"
    by simp
  from note_emitted_once[OF refl h2 h3 u] h3 show ?thesis
    by (simp add: eval_defs)
qed

text \<open>
  C8. With the two Pillow functions as documented, \<^verbatim>\<open>diff_images\<close> sums the pixel counts
  of a histogram, which is the number of samples whatever the samples are: two identical
  images of one band and two pixels give 2, not 0, and so do two different ones.
\<close>

theorem identical_images_differ:
  "diff_images ImageChops_difference Image_histogram [[[0, 255]]] [[[0, 255]]] = Inr 2
   \<and> diff_images ImageChops_difference Image_histogram [[[0, 255]]] [[[7, 9]]] = Inr 2"
  by (simp add: diff_images_def ImageChops_difference_def histogram_total)

text \<open>
  C9. For a signal whose status has an \<^verbatim>\<open>enum\<close> entry, the handler of a block returns true,
  and the \<^verbatim>\<open>with\<close> statement ends normally, exactly when the block's class is the signal's
  \<^verbatim>\<open>recover_at\<close> class or derives from it; so the signal is swallowed by the first enclosing
  block that is an instance of that class, after leaving every block that is not.
\<close>

theorem claimed_iff_subclass:
  assumes "dict_get (status x) ''enum'' = Some v"
  shows "snd (snd (snd (handle_dodona_exception self x)))
           = Inr (issubclass (klass self) (recover_at x))
       \<and> (snd (snd (with_exit self (Raised (DodonaExc x)))) = Normal
            \<longleftrightarrow> issubclass (klass self) (recover_at x))
       \<and> (issubclass (klass self) (recover_at x)
            \<longleftrightarrow> klass self = recover_at x
                \<or> (\<exists>s. superclass (klass self) = Some s \<and> issubclass s (recover_at x)))
       \<and> ((\<forall>b\<in>set bs. \<not> issubclass (klass b) (recover_at x))
            \<and> issubclass (klass m) (recover_at x)
            \<longrightarrow> snd (snd (unwind (bs @ m # outer) (DodonaExc x))) = Normal
                \<and> length (fst (snd (unwind (bs @ m # outer) (DodonaExc x)))) = Suc (length bs))"
proof (intro conjI impI)
  show "snd (snd (snd (handle_dodona_exception self x)))
           = Inr (issubclass (klass self) (recover_at x))"
    by (simp add: handle_unfold[OF assms])
  show "snd (snd (with_exit self (Raised (DodonaExc x)))) = Normal
            \<longleftrightarrow> issubclass (klass self) (recover_at x)"
    by (simp add: with_exit_Dodona[OF assms])
  show "issubclass (klass self) (recover_at x)
            \<longleftrightarrow> klass self = recover_at x
                \<or> (\<exists>s. superclass (klass self) = Some s \<and> issubclass s (recover_at x))"
    by (rule issubclass_step)
next
  assume a: "(\<forall>b\<in>set bs. \<not> issubclass (klass b) (recover_at x))
            \<and> issubclass (klass m) (recover_at x)"
  from a have nm: "\<forall>b\<in>set bs. \<not> issubclass (klass b) (recover_at x)"
    and m: "issubclass (klass m) (recover_at x)" by simp_all
  show "snd (snd (unwind (bs @ m # outer) (DodonaExc x))) = Normal"
    by (simp add: unwind_caught[OF assms nm m])
  show "length (fst (snd (unwind (bs @ m # outer) (DodonaExc x)))) = Suc (length bs)"
    by (simp add: unwind_caught[OF assms nm m])
qed

theorem claimed_iff_subclass_witness:
  "dict_get (status (DodonaException_init [0, 0, 0] [(''enum'', JStr ''wrong'')]
        (Some DodonaCommandWithStatus) [])) ''enum'' = Some (JStr ''wrong'')
   \<and> snd (snd (snd (handle_dodona_exception (Test_init [0, 0] (JStr ''d'') (JStr ''A'') [])
        (DodonaException_init [0, 0, 0] [(''enum'', JStr ''wrong'')]
           (Some DodonaCommandWithStatus) [])))) = Inr True
   \<and> snd (snd (snd (handle_dodona_exception (TestCase_init [0] [] [])
        (DodonaException_init [0, 0, 0] [(''enum'', JStr ''wrong'')]
           (Some DodonaCommandWithStatus) [])))) = Inr False"
proof -
  let ?x = "DodonaException_init [0, 0, 0] [(''enum'', JStr ''wrong'')]
              (Some DodonaCommandWithStatus) []"
  have h: "dict_get (status ?x) ''enum'' = Some (JStr ''wrong'')"
    by (simp add: dict_get_def)
  from claimed_iff_subclass[OF h, of "Test_init [0, 0] (JStr ''d'') (JStr ''A'') []" "[]"
      "TestCase_init [0] [] []" "[]"]
    claimed_iff_subclass[OF h, of "TestCase_init [0] [] []" "[]" "TestCase_init [0] [] []" "[]"]
    h
  show ?thesis
    by (simp add: Test_init_def TestCase_init_def DodonaCommand_init_def issubclass_def)
qed

text \<open>
  C10. The start record of a \<^verbatim>\<open>TestCase\<close> holds \<^verbatim>\<open>description\<close>, and the start record of a
  \<^verbatim>\<open>Message\<close> holds \<^verbatim>\<open>message\<close>, whatever the arguments: with exactly one positional
  argument the field is that argument (and the keywords are dropped), with any other
  number of positional arguments it is the dictionary of the keywords (the empty one
  when there are none), and the positional arguments are dropped.
\<close>

theorem single_positional_or_keywords:
  "dunder_enter (construct p (NewTestCase args kwargs)) =
     [\<lparr>emitter = p, site = At_enter,
       payload = [(''command'', JStr ''start-testcase''),
                  (''description'', if length args = 1 then args ! 0 else JObj kwargs)]\<rparr>]
   \<and> dunder_enter (construct p (NewMessage args kwargs)) =
     [\<lparr>emitter = p, site = At_enter,
       payload = [(''command'', JStr ''append-message''),
                  (''message'', if length args = 1 then args ! 0 else JObj kwargs)]\<rparr>]"
  by (simp add: dunder_enter_def print_command_def start_msg_def TestCase_init_def
      Message_init_def DodonaCommand_init_def name_def lower_def lower_char_def
      dict_update_def dict_set_def)

theorem single_positional_or_keywords_witness:
  "dunder_enter (construct [] (NewTestCase [JStr ''a'', JStr ''b''] [])) =
     [\<lparr>emitter = [], site = At_enter,
       payload = [(''command'', JStr ''start-testcase''), (''description'', JObj [])]\<rparr>]
   \<and> dunder_enter (construct [] (NewMessage [JStr ''a''] [(''format'', JStr ''code'')])) =
     [\<lparr>emitter = [], site = At_enter,
       payload = [(''command'', JStr ''append-message''), (''message'', JStr ''a'')]\<rparr>]"
  using single_positional_or_keywords[of "[]" "[JStr ''a'', JStr ''b'']" "[]"]
    single_positional_or_keywords[of "[]" "[JStr ''a'']" "[(''format'', JStr ''code'')]"]
  by simp

end
